theory Spec2Isabelle
  imports Main
begin

section \<open>Data model\<close>

text \<open>
  The exceptions the traversal can end with. \<open>IndexError\<close> is what numpy and the
  positional column selector raise for a position outside the array, \<open>TypeError\<close> is
  raised by \<open>&\<close> on a missing operand and by \<open>reduce\<close> on an empty list,
  \<open>UnboundLocalError\<close> by reading \<open>direction_path_op\<close> when no branch assigned it, and
  \<open>RecursionError\<close> when the nesting of \<open>_traverse\<close> exceeds what the interpreter
  allows.
\<close>

datatype error = IndexError | TypeError | UnboundLocalError | RecursionError

text \<open>
  The fitted tree: four parallel arrays indexed by node id. A negative child index marks
  a missing child. Thresholds and data values share the type \<open>'a\<close>, of which only the two
  comparisons \<open>\<le>\<close> and \<open>>\<close> are used.
\<close>

record 'a tree =
  children_left :: "int list"
  children_right :: "int list"
  feature :: "int list"
  threshold :: "'a list"

text \<open>The data frame: its named columns in order, each the list of its row values.\<close>

type_synonym 'a dataframe = "(string \<times> 'a list) list"

text \<open>
  What a filter expression evaluates to: the Python scalar \<open>True\<close>/\<open>False\<close>, a boolean
  Series (one value per row), or \<open>None\<close>.
\<close>

datatype pyval = PyBool bool | Series "bool list" | PyNone

text \<open>The dict of rules, in insertion order.\<close>

type_synonym rules = "(string \<times> pyval) list"

section \<open>Indexing\<close>

text \<open>
  Positional indexing as numpy arrays and \<open>iloc\<close> do it: a negative position counts
  from the end, a position outside \<open>[-n, n)\<close> raises.
\<close>

definition py_index :: "'b list \<Rightarrow> int \<Rightarrow> error + 'b" where
  "py_index xs i =
     (if 0 \<le> i \<and> i < int (length xs) then Inr (xs ! nat i)
      else if i < 0 \<and> - int (length xs) \<le> i then Inr (xs ! nat (int (length xs) + i))
      else Inl IndexError)"

text \<open>Indexing by a list of positions (\<open>arr[rule_path]\<close>, \<open>iloc[:, positions]\<close>).\<close>

fun py_take :: "'b list \<Rightarrow> int list \<Rightarrow> error + 'b list" where
  "py_take xs [] = Inr []"
| "py_take xs (i # is) =
     (case py_index xs i of
        Inl e \<Rightarrow> Inl e
      | Inr v \<Rightarrow> (case py_take xs is of Inl e \<Rightarrow> Inl e | Inr vs \<Rightarrow> Inr (v # vs)))"

text \<open>
  \<open>rules_dict[name] = value\<close>: an existing key keeps its place and gets the new value,
  a new key goes to the end.
\<close>

fun dict_set :: "rules \<Rightarrow> string \<Rightarrow> pyval \<Rightarrow> rules" where
  "dict_set [] k v = [(k, v)]"
| "dict_set ((k', v') # ps) k v =
     (if k' = k then (k, v) # ps else (k', v') # dict_set ps k v)"

section \<open>The rule filter\<close>

text \<open>\<open>_create_single_filter\<close>: without a matching branch the function returns \<open>None\<close>.\<close>

definition create_single_filter :: "('a::ord) list \<Rightarrow> 'a \<Rightarrow> string \<Rightarrow> pyval" where
  "create_single_filter srs thr direction =
     (if direction = ''left'' then Series (map (\<lambda>x. x \<le> thr) srs)
      else if direction = ''right'' then Series (map (\<lambda>x. x > thr) srs)
      else PyNone)"

text \<open>
  The operator \<open>&\<close> on the values that occur. Two Series of one frame share their index,
  so they combine position by position; a scalar is broadcast; \<open>None\<close> is rejected.
\<close>

fun py_and :: "pyval \<Rightarrow> pyval \<Rightarrow> error + pyval" where
  "py_and (PyBool a) (PyBool b) = Inr (PyBool (a \<and> b))"
| "py_and (PyBool a) (Series s) = Inr (Series (map (\<lambda>x. a \<and> x) s))"
| "py_and (Series s) (PyBool b) = Inr (Series (map (\<lambda>x. x \<and> b) s))"
| "py_and (Series s) (Series t) = Inr (Series (map2 (\<and>) s t))"
| "py_and _ PyNone = Inl TypeError"
| "py_and PyNone _ = Inl TypeError"

text \<open>The \<open>for i in range(len(direction_path))\<close> loop, over the positions still to do.\<close>

fun rule_filter_loop ::
  "('a::ord) dataframe \<Rightarrow> 'a list \<Rightarrow> string list \<Rightarrow> nat list \<Rightarrow> pyval \<Rightarrow> error + pyval"
where
  "rule_filter_loop X_rule_values thresholds direction_path [] rule_filter_srs =
     Inr rule_filter_srs"
| "rule_filter_loop X_rule_values thresholds direction_path (i # is) rule_filter_srs =
     (case py_index X_rule_values (int i) of
        Inl e \<Rightarrow> Inl e
      | Inr col \<Rightarrow>
     (case py_index thresholds (int i) of
        Inl e \<Rightarrow> Inl e
      | Inr thr \<Rightarrow>
     (case py_and rule_filter_srs
             (create_single_filter (snd col) thr (direction_path ! i)) of
        Inl e \<Rightarrow> Inl e
      | Inr acc \<Rightarrow> rule_filter_loop X_rule_values thresholds direction_path is acc)))"

definition create_rule_filter ::
  "('a::ord) dataframe \<Rightarrow> 'a list \<Rightarrow> string list \<Rightarrow> error + pyval"
where
  "create_rule_filter X_rule_values thresholds direction_path =
     rule_filter_loop X_rule_values thresholds direction_path
       [0..<length direction_path] (PyBool True)"

section \<open>The rule name\<close>

text \<open>
  \<open>_create_single_filter_name\<close>. The text of a threshold is what the f-string makes of
  the number; it is the parameter \<open>fmt\<close>.
\<close>

definition create_single_filter_name ::
  "('a \<Rightarrow> string) \<Rightarrow> 'a dataframe \<Rightarrow> 'a list \<Rightarrow> string list \<Rightarrow> nat \<Rightarrow> error + string"
where
  "create_single_filter_name fmt X_rule_values thresholds direction_path i =
     (case py_index X_rule_values (int i) of
        Inl e \<Rightarrow> Inl e
      | Inr col \<Rightarrow>
     (case py_index thresholds (int i) of
        Inl e \<Rightarrow> Inl e
      | Inr threshold_val \<Rightarrow>
     (if direction_path ! i = ''left''
        then Inr (fst col @ '' '' @ ''<='' @ '' '' @ fmt threshold_val)
      else if direction_path ! i = ''right''
        then Inr (fst col @ '' '' @ ''>'' @ '' '' @ fmt threshold_val)
      else Inl UnboundLocalError)))"

definition combine_filter_names :: "string \<Rightarrow> string \<Rightarrow> string" where
  "combine_filter_names name_1 name_2 = name_1 @ '' & '' @ name_2"

text \<open>The list comprehension over \<open>range(len(direction_path))\<close>.\<close>

fun filter_names_loop ::
  "('a \<Rightarrow> string) \<Rightarrow> 'a dataframe \<Rightarrow> 'a list \<Rightarrow> string list \<Rightarrow> nat list \<Rightarrow> error + string list"
where
  "filter_names_loop fmt X_rule_values thresholds direction_path [] = Inr []"
| "filter_names_loop fmt X_rule_values thresholds direction_path (i # is) =
     (case create_single_filter_name fmt X_rule_values thresholds direction_path i of
        Inl e \<Rightarrow> Inl e
      | Inr nm \<Rightarrow>
     (case filter_names_loop fmt X_rule_values thresholds direction_path is of
        Inl e \<Rightarrow> Inl e
      | Inr nms \<Rightarrow> Inr (nm # nms)))"

text \<open>\<open>functools.reduce\<close> without an initial value: an empty list raises.\<close>

fun reduce :: "('b \<Rightarrow> 'b \<Rightarrow> 'b) \<Rightarrow> 'b list \<Rightarrow> error + 'b" where
  "reduce f [] = Inl TypeError"
| "reduce f (x # xs) = Inr (foldl f x xs)"

definition create_rule_filter_name ::
  "('a \<Rightarrow> string) \<Rightarrow> 'a dataframe \<Rightarrow> 'a list \<Rightarrow> string list \<Rightarrow> error + string"
where
  "create_rule_filter_name fmt X_rule_values thresholds direction_path =
     (case filter_names_loop fmt X_rule_values thresholds direction_path
             [0..<length direction_path] of
        Inl e \<Rightarrow> Inl e
      | Inr filter_names \<Rightarrow> reduce combine_filter_names filter_names)"

section \<open>The traversal\<close>

text \<open>
  The body of \<open>if len(rule_path) > 2\<close>: select the columns and thresholds of the nodes
  on the path, build the filter, then the name. \<open>make_rule\<close> is the pair that is stored,
  \<open>add_rule\<close> stores it.
\<close>

definition make_rule ::
  "('a \<Rightarrow> string) \<Rightarrow> ('a::ord) dataframe \<Rightarrow> 'a tree \<Rightarrow> int list \<Rightarrow> string list
     \<Rightarrow> error + (string \<times> pyval)"
where
  "make_rule fmt X_values t rule_path direction_path =
     (case py_take (feature t) rule_path of
        Inl e \<Rightarrow> Inl e
      | Inr positions \<Rightarrow>
     (case py_take X_values positions of
        Inl e \<Rightarrow> Inl e
      | Inr X_rule_values \<Rightarrow>
     (case py_take (threshold t) rule_path of
        Inl e \<Rightarrow> Inl e
      | Inr thresholds \<Rightarrow>
     (case create_rule_filter X_rule_values thresholds direction_path of
        Inl e \<Rightarrow> Inl e
      | Inr rule_filter_srs \<Rightarrow>
     (case create_rule_filter_name fmt X_rule_values thresholds direction_path of
        Inl e \<Rightarrow> Inl e
      | Inr rule_filter_name \<Rightarrow> Inr (rule_filter_name, rule_filter_srs))))))"

definition add_rule ::
  "('a \<Rightarrow> string) \<Rightarrow> ('a::ord) dataframe \<Rightarrow> 'a tree \<Rightarrow> int list \<Rightarrow> string list \<Rightarrow> rules
     \<Rightarrow> error + rules"
where
  "add_rule fmt X_values t rule_path direction_path rules_dict =
     (case make_rule fmt X_values t rule_path direction_path of
        Inl e \<Rightarrow> Inl e
      | Inr (nm, srs) \<Rightarrow> Inr (dict_set rules_dict nm srs))"

text \<open>
  \<open>_traverse\<close>. The rule path is a Python list that \<open>append\<close> changes in place, so it
  lives in a store of lists: \<open>rule_path\<close> is an address, \<open>append\<close> writes at that address
  and \<open>copy\<close> allocates a new one. The direction path is only ever read and extended
  with \<open>+\<close>, which builds a new list, so it is a value. The first argument is how many
  nested activations of \<open>_traverse\<close> the interpreter still allows.
\<close>

fun traverse ::
  "nat \<Rightarrow> ('a \<Rightarrow> string) \<Rightarrow> ('a::ord) dataframe \<Rightarrow> 'a tree \<Rightarrow> int \<Rightarrow> nat \<Rightarrow> string list
     \<Rightarrow> int list list \<times> rules \<Rightarrow> error + (int list list \<times> rules)"
where
  "traverse 0 fmt X_values t parent_index rule_path direction_path (store, rules_dict) =
     Inl RecursionError"
| "traverse (Suc depth) fmt X_values t parent_index rule_path direction_path
       (store, rules_dict) =
     (case py_index (children_left t) parent_index of
        Inl e \<Rightarrow> Inl e
      | Inr left_child_index \<Rightarrow>
     (case py_index (children_right t) parent_index of
        Inl e \<Rightarrow> Inl e
      | Inr right_child_index \<Rightarrow>
     (let store1 = store[rule_path := store ! rule_path @ [parent_index]] in
     (case (if length (store1 ! rule_path) > 2
            then add_rule fmt X_values t (store1 ! rule_path) direction_path rules_dict
            else Inr rules_dict) of
        Inl e \<Rightarrow> Inl e
      | Inr rules1 \<Rightarrow>
     (case (if left_child_index \<ge> 0
            then traverse depth fmt X_values t left_child_index (length store1)
                   (direction_path @ [''left''])
                   (store1 @ [store1 ! rule_path], rules1)
            else Inr (store1, rules1)) of
        Inl e \<Rightarrow> Inl e
      | Inr (store2, rules2) \<Rightarrow>
     (if right_child_index \<ge> 0
      then traverse depth fmt X_values t right_child_index (length store2)
             (direction_path @ [''right''])
             (store2 @ [store2 ! rule_path], rules2)
      else Inr (store2, rules2)))))))"

text \<open>
  The top-level function: an empty rule path and direction path, an empty dict, and the
  traversal from node 0.
\<close>

definition create_tree_rule_filters ::
  "nat \<Rightarrow> ('a \<Rightarrow> string) \<Rightarrow> ('a::ord) dataframe \<Rightarrow> 'a tree \<Rightarrow> error + rules"
where
  "create_tree_rule_filters depth fmt X_values t =
     (case traverse depth fmt X_values t 0 0 [] ([[]], []) of
        Inl e \<Rightarrow> Inl e
      | Inr (store, rules_dict) \<Rightarrow> Inr rules_dict)"

section \<open>The traversal with the rule path passed by value\<close>

text \<open>
  The same traversal with the rule path as a value: every activation works on the list
  it was given, extended by its own node. \<open>traverse\<close> is shown below to compute exactly
  this, which is what the copies before each recursive call are for.
\<close>

fun traverse_val ::
  "nat \<Rightarrow> ('a \<Rightarrow> string) \<Rightarrow> ('a::ord) dataframe \<Rightarrow> 'a tree \<Rightarrow> int \<Rightarrow> int list \<Rightarrow> string list
     \<Rightarrow> rules \<Rightarrow> error + rules"
where
  "traverse_val 0 fmt X_values t parent_index rule_path direction_path rules_dict =
     Inl RecursionError"
| "traverse_val (Suc depth) fmt X_values t parent_index rule_path direction_path rules_dict =
     (case py_index (children_left t) parent_index of
        Inl e \<Rightarrow> Inl e
      | Inr left_child_index \<Rightarrow>
     (case py_index (children_right t) parent_index of
        Inl e \<Rightarrow> Inl e
      | Inr right_child_index \<Rightarrow>
     (case (if length (rule_path @ [parent_index]) > 2
            then add_rule fmt X_values t (rule_path @ [parent_index]) direction_path
                   rules_dict
            else Inr rules_dict) of
        Inl e \<Rightarrow> Inl e
      | Inr rules1 \<Rightarrow>
     (case (if left_child_index \<ge> 0
            then traverse_val depth fmt X_values t left_child_index
                   (rule_path @ [parent_index]) (direction_path @ [''left'']) rules1
            else Inr rules1) of
        Inl e \<Rightarrow> Inl e
      | Inr rules2 \<Rightarrow>
     (if right_child_index \<ge> 0
      then traverse_val depth fmt X_values t right_child_index
             (rule_path @ [parent_index]) (direction_path @ [''right'']) rules2
      else Inr rules2)))))"

text \<open>
  How a run on the store relates to the run by value: the same error, or the same rules
  together with a store in which the list at \<open>a\<close> has grown by \<open>grown\<close> and every other
  list that existed before is unchanged.
\<close>

definition store_agrees ::
  "int list list \<Rightarrow> nat \<Rightarrow> int list \<Rightarrow> error + (int list list \<times> rules) \<Rightarrow> error + rules
     \<Rightarrow> bool"
where
  "store_agrees store a grown res res_val =
     (case res of
        Inl e \<Rightarrow> res_val = Inl e
      | Inr (store', rules') \<Rightarrow>
          res_val = Inr rules' \<and> length store \<le> length store' \<and>
          store' ! a = store ! a @ grown \<and>
          (\<forall>b < length store. b \<noteq> a \<longrightarrow> store' ! b = store ! b))"

section \<open>Ancestor chains, read off the child arrays\<close>

text \<open>
  \<open>follows t p ms es\<close>: starting below node \<open>p\<close>, the nodes \<open>ms\<close> are reached by taking
  the edges \<open>es\<close> one after the other, each to an existing child.
\<close>

fun follows :: "'a tree \<Rightarrow> int \<Rightarrow> int list \<Rightarrow> string list \<Rightarrow> bool" where
  "follows t p [] [] = True"
| "follows t p (c # ms) (e # es) =
     ((e = ''left'' \<and> py_index (children_left t) p = Inr c \<or>
       e = ''right'' \<and> py_index (children_right t) p = Inr c) \<and>
      0 \<le> c \<and> follows t c ms es)"
| "follows t p _ _ = False"

text \<open>The node-index path \<open>ns\<close> from the root, with the directions \<open>ds\<close> of its edges.\<close>

definition ancestor_chain :: "'a tree \<Rightarrow> int list \<Rightarrow> string list \<Rightarrow> bool" where
  "ancestor_chain t ns ds =
     (case ns of [] \<Rightarrow> False | n # ms \<Rightarrow> n = 0 \<and> follows t 0 ms ds)"

text \<open>A leaf: both child entries exist and are negative.\<close>

definition is_leaf :: "'a tree \<Rightarrow> int \<Rightarrow> bool" where
  "is_leaf t i =
     (case py_index (children_left t) i of
        Inl e \<Rightarrow> False
      | Inr l \<Rightarrow> (case py_index (children_right t) i of
                    Inl e \<Rightarrow> False
                  | Inr r \<Rightarrow> l < 0 \<and> r < 0))"

section \<open>The rule as the specification words it\<close>

text \<open>
  One text per position below \<open>len(directions)\<close>: column name, operator, threshold.
\<close>

definition conjunct_names ::
  "('a \<Rightarrow> string) \<Rightarrow> 'a dataframe \<Rightarrow> 'a list \<Rightarrow> string list \<Rightarrow> string list"
where
  "conjunct_names fmt cols thrs ds =
     map (\<lambda>(col, thr, d).
            fst col @ '' '' @ (if d = ''left'' then ''<='' else ''>'') @ '' '' @ fmt thr)
         (zip cols (zip thrs ds))"

text \<open>Joining with the separator, left to right.\<close>

fun join_names :: "string list \<Rightarrow> string" where
  "join_names [] = []"
| "join_names [x] = x"
| "join_names (x # y # zs) = x @ '' & '' @ join_names (y # zs)"

text \<open>One comparison vector per position below \<open>len(directions)\<close>.\<close>

definition conjunct_vectors ::
  "('a::ord) dataframe \<Rightarrow> 'a list \<Rightarrow> string list \<Rightarrow> bool list list"
where
  "conjunct_vectors cols thrs ds =
     map (\<lambda>(col, thr, d).
            map (\<lambda>x. if d = ''left'' then x \<le> thr else x > thr) (snd col))
         (zip cols (zip thrs ds))"

text \<open>The row-wise conjunction of comparison vectors.\<close>

definition and_vectors :: "bool list list \<Rightarrow> bool list" where
  "and_vectors vs = foldl (\<lambda>acc v. map2 (\<and>) acc v) (hd vs) (tl vs)"

section \<open>Example inputs\<close>

text \<open>
  The five-node tree of the specification: the root splits column 0 at 5, its left child
  is a leaf, its right child splits column 1 at 10 and has two leaves. Leaves carry the
  feature and threshold \<open>-2\<close>, as a fitted tree does.
\<close>

definition tree5 :: "int tree" where
  "tree5 = \<lparr>children_left = [1, -1, 3, -1, -1], children_right = [2, -1, 4, -1, -1],
            feature = [0, -2, 1, -2, -2], threshold = [5, -2, 10, -2, -2]\<rparr>"

text \<open>The same tree with the root's feature index written as \<open>-1\<close>.\<close>

definition tree5_neg :: "int tree" where
  "tree5_neg = \<lparr>children_left = [1, -1, 3, -1, -1], children_right = [2, -1, 4, -1, -1],
                feature = [-1, -2, 1, -2, -2], threshold = [5, -2, 10, -2, -2]\<rparr>"

text \<open>A root with two leaves, and a tree that is a single leaf.\<close>

definition tree3 :: "int tree" where
  "tree3 = \<lparr>children_left = [1, -1, -1], children_right = [2, -1, -1],
            feature = [0, -2, -2], threshold = [5, -2, -2]\<rparr>"

definition tree1 :: "int tree" where
  "tree1 = \<lparr>children_left = [-1], children_right = [-1],
            feature = [-2], threshold = [-2]\<rparr>"

text \<open>
  Three rows in two columns, its first column alone, the same frame without rows, and a
  rendering.
\<close>

definition data2 :: "int dataframe" where
  "data2 = [(''a'', [1, 7, 9]), (''b'', [20, 3, 11])]"

definition data1 :: "int dataframe" where
  "data1 = [(''a'', [1, 7, 9])]"

definition data0 :: "int dataframe" where
  "data0 = [(''a'', []), (''b'', [])]"

definition fmt0 :: "int \<Rightarrow> string" where
  "fmt0 x = (if x = 5 then ''5.0'' else if x = 10 then ''10.0'' else ''?'')"

section \<open>The store and the copies\<close>

lemma traverse_store:
  "a < length store \<Longrightarrow>
   store_agrees store a [p] (traverse d fmt X t p a dp (store, rd))
     (traverse_val d fmt X t p (store ! a) dp rd)"
proof (induction d arbitrary: p a dp store rd)
  case 0
  show ?case by (simp add: store_agrees_def)
next
  case (Suc d)
  show ?case
  proof (cases "py_index (children_left t) p")
    case (Inl e) then show ?thesis by (simp add: store_agrees_def)
  next
    case l: (Inr l)
    show ?thesis
    proof (cases "py_index (children_right t) p")
      case (Inl e) then show ?thesis using l by (simp add: store_agrees_def)
    next
      case r: (Inr r)
      define s1 where "s1 = store[a := store ! a @ [p]]"
      have s1a: "s1 ! a = store ! a @ [p]" and s1len: "length s1 = length store"
        and s1other: "\<And>b. b \<noteq> a \<Longrightarrow> s1 ! b = store ! b"
        using Suc.prems by (simp_all add: s1_def)
      define R1 where "R1 = (if length (s1 ! a) > 2
            then add_rule fmt X t (s1 ! a) dp rd else Inr rd)"
      define Lf where "Lf rd1 = (if l \<ge> 0
            then traverse d fmt X t l (length s1) (dp @ [''left''])
                   (s1 @ [s1 ! a], rd1)
            else Inr (s1, rd1))" for rd1
      define Rf where "Rf s2 rd2 = (if r \<ge> 0
            then traverse d fmt X t r (length s2) (dp @ [''right''])
                   (s2 @ [s2 ! a], rd2)
            else Inr (s2, rd2))" for s2 rd2
      define Lv where "Lv rd1 = (if l \<ge> 0
            then traverse_val d fmt X t l (s1 ! a) (dp @ [''left'']) rd1
            else Inr rd1)" for rd1
      define Rv where "Rv rd2 = (if r \<ge> 0
            then traverse_val d fmt X t r (s1 ! a) (dp @ [''right'']) rd2
            else Inr rd2)" for rd2
      have unfoldS: "traverse (Suc d) fmt X t p a dp (store, rd) =
           (case R1 of Inl e \<Rightarrow> Inl e | Inr rd1 \<Rightarrow>
            (case Lf rd1 of Inl e \<Rightarrow> Inl e | Inr (s2, rd2) \<Rightarrow> Rf s2 rd2))"
        unfolding R1_def Lf_def Rf_def s1_def
        by (simp only: traverse.simps l r sum.case Let_def)
      have unfoldV: "traverse_val (Suc d) fmt X t p (store ! a) dp rd =
           (case R1 of Inl e \<Rightarrow> Inl e | Inr rd1 \<Rightarrow>
            (case Lv rd1 of Inl e \<Rightarrow> Inl e | Inr rd2 \<Rightarrow> Rv rd2))"
        unfolding R1_def Lv_def Rv_def s1a
        by (simp only: traverse_val.simps l r sum.case)
      have Lagree: "store_agrees s1 a [] (Lf rd1) (Lv rd1)" for rd1
      proof (cases "l \<ge> 0")
        case False
        then show ?thesis by (simp add: Lf_def Lv_def store_agrees_def)
      next
        case True
        have "store_agrees (s1 @ [s1 ! a]) (length s1) [l]
                (traverse d fmt X t l (length s1) (dp @ [''left'']) (s1 @ [s1 ! a], rd1))
                (traverse_val d fmt X t l ((s1 @ [s1 ! a]) ! length s1) (dp @ [''left'']) rd1)"
          by (rule Suc.IH) simp
        then show ?thesis using True s1len Suc.prems
          by (auto simp: Lf_def Lv_def store_agrees_def nth_append
                split: sum.splits prod.splits)
      qed
      have Ragree: "store_agrees s2 a [] (Rf s2 rd2) (Rv rd2)"
        if "a < length s2" "s2 ! a = s1 ! a" for s2 rd2
      proof (cases "r \<ge> 0")
        case False
        then show ?thesis by (simp add: Rf_def Rv_def store_agrees_def)
      next
        case True
        have "store_agrees (s2 @ [s2 ! a]) (length s2) [r]
                (traverse d fmt X t r (length s2) (dp @ [''right'']) (s2 @ [s2 ! a], rd2))
                (traverse_val d fmt X t r ((s2 @ [s2 ! a]) ! length s2) (dp @ [''right'']) rd2)"
          by (rule Suc.IH) simp
        then show ?thesis using True that
          by (auto simp: Rf_def Rv_def store_agrees_def nth_append
                split: sum.splits prod.splits)
      qed
      show ?thesis
      proof (cases R1)
        case (Inl e)
        then show ?thesis unfolding unfoldS unfoldV by (simp add: store_agrees_def)
      next
        case r1: (Inr rd1)
        show ?thesis
        proof (cases "Lf rd1")
          case (Inl e)
          then show ?thesis using Lagree[of rd1] r1 unfolding unfoldS unfoldV
            by (simp add: store_agrees_def)
        next
          case (Inr sr)
          obtain s2 rd2 where sr: "sr = (s2, rd2)" by (cases sr)
          have L2: "Lf rd1 = Inr (s2, rd2)" using Inr sr by simp
          have Lv2: "Lv rd1 = Inr rd2" and len2: "length s1 \<le> length s2"
            and s2a: "s2 ! a = s1 ! a"
            and s2other: "\<And>b. b < length s1 \<Longrightarrow> b \<noteq> a \<Longrightarrow> s2 ! b = s1 ! b"
            using Lagree[of rd1] L2 by (simp_all add: store_agrees_def)
          have a2: "a < length s2" using len2 s1len Suc.prems by simp
          have "store_agrees s2 a [] (Rf s2 rd2) (Rv rd2)" by (rule Ragree[OF a2 s2a])
          then show ?thesis
            using r1 L2 Lv2 len2 s2a s2other s1a s1len s1other Suc.prems
            unfolding unfoldS unfoldV
            by (auto simp: store_agrees_def split: sum.splits prod.splits)
        qed
      qed
    qed
  qed
qed

lemma create_tree_rule_filters_val:
  "create_tree_rule_filters d fmt X t = traverse_val d fmt X t 0 [] [] []"
  using traverse_store[of 0 "[[]]" 0 d fmt X t "[]" "[]"]
  by (auto simp: create_tree_rule_filters_def store_agrees_def split: sum.splits prod.splits)

section \<open>The helpers on well-formed paths\<close>

lemma py_index_nat:
  "py_index xs (int i) = (if i < length xs then Inr (xs ! i) else Inl IndexError)"
  by (simp add: py_index_def)

lemma join_names_combine:
  "join_names ((a @ '' & '' @ b) # ys) = a @ '' & '' @ join_names (b # ys)"
  by (cases ys) simp_all

lemma foldl_combine_join:
  "foldl combine_filter_names x xs = join_names (x # xs)"
proof (induction xs arbitrary: x)
  case Nil
  show ?case by simp
next
  case (Cons y ys)
  have "foldl combine_filter_names x (y # ys)
          = foldl combine_filter_names (combine_filter_names x y) ys" by simp
  also have "\<dots> = join_names (combine_filter_names x y # ys)" by (rule Cons.IH)
  also have "\<dots> = join_names (x # y # ys)"
    unfolding combine_filter_names_def by (simp only: join_names_combine join_names.simps(3))
  finally show ?case .
qed

lemma conjunct_names_length:
  "length (conjunct_names fmt cols thrs ds) = min (length cols) (min (length thrs) (length ds))"
  by (simp add: conjunct_names_def)

lemma conjunct_vectors_length:
  "length (conjunct_vectors cols thrs ds) = min (length cols) (min (length thrs) (length ds))"
  by (simp add: conjunct_vectors_def)

lemma single_name_ok:
  assumes "i < length ds" "i < length cols" "i < length thrs"
    and "ds ! i = ''left'' \<or> ds ! i = ''right''"
  shows "create_single_filter_name fmt cols thrs ds i = Inr (conjunct_names fmt cols thrs ds ! i)"
  using assms
  by (auto simp: create_single_filter_name_def py_index_nat conjunct_names_def split: prod.splits)

lemma single_filter_ok:
  assumes "i < length ds" "i < length cols" "i < length thrs"
    and "ds ! i = ''left'' \<or> ds ! i = ''right''"
  shows "create_single_filter (snd (cols ! i)) (thrs ! i) (ds ! i)
           = Series (conjunct_vectors cols thrs ds ! i)"
  using assms
  by (auto simp: create_single_filter_def conjunct_vectors_def split: prod.splits)

lemma filter_names_loop_ok:
  assumes "set ds \<subseteq> {''left'', ''right''}" "length ds \<le> length cols" "length ds \<le> length thrs"
  shows "k \<le> length ds \<Longrightarrow> filter_names_loop fmt cols thrs ds [k..<length ds]
           = Inr (drop k (conjunct_names fmt cols thrs ds))"
proof (induction "length ds - k" arbitrary: k)
  case 0
  then show ?case by (simp add: conjunct_names_length)
next
  case (Suc m)
  then have k: "k < length ds" by simp
  have dk: "ds ! k = ''left'' \<or> ds ! k = ''right''"
    using assms(1) k nth_mem by fastforce
  have upt: "[k..<length ds] = k # [Suc k..<length ds]" using k by (simp add: upt_conv_Cons)
  have IH: "filter_names_loop fmt cols thrs ds [Suc k..<length ds]
           = Inr (drop (Suc k) (conjunct_names fmt cols thrs ds))"
    using Suc k by (intro Suc.hyps(1)) simp_all
  have "k < length (conjunct_names fmt cols thrs ds)" using k assms by (simp add: conjunct_names_length)
  then have dr: "drop k (conjunct_names fmt cols thrs ds) =
      conjunct_names fmt cols thrs ds ! k # drop (Suc k) (conjunct_names fmt cols thrs ds)"
    by (simp add: Cons_nth_drop_Suc)
  show ?case using k assms dk
    by (simp add: upt IH dr single_name_ok)
qed

lemma create_rule_filter_name_ok:
  assumes "set ds \<subseteq> {''left'', ''right''}" "length ds \<le> length cols" "length ds \<le> length thrs"
    "ds \<noteq> []"
  shows "create_rule_filter_name fmt cols thrs ds = Inr (join_names (conjunct_names fmt cols thrs ds))"
proof -
  have "conjunct_names fmt cols thrs ds \<noteq> []"
    using assms conjunct_names_length[of fmt cols thrs ds] by (cases ds) auto
  then obtain x xs where xs: "conjunct_names fmt cols thrs ds = x # xs"
    by (cases "conjunct_names fmt cols thrs ds") auto
  show ?thesis
    using filter_names_loop_ok[OF assms(1-3), of 0 fmt]
    by (simp add: create_rule_filter_name_def xs foldl_combine_join del: join_names.simps)
qed

lemma rule_filter_loop_ok:
  assumes "set ds \<subseteq> {''left'', ''right''}" "length ds \<le> length cols" "length ds \<le> length thrs"
  shows "k \<le> length ds \<Longrightarrow> rule_filter_loop cols thrs ds [k..<length ds] (Series acc)
           = Inr (Series (foldl (\<lambda>acc v. map2 (\<and>) acc v) acc (drop k (conjunct_vectors cols thrs ds))))"
proof (induction "length ds - k" arbitrary: k acc)
  case 0
  then show ?case by (simp add: conjunct_vectors_length)
next
  case (Suc m)
  then have k: "k < length ds" by simp
  have dk: "ds ! k = ''left'' \<or> ds ! k = ''right''"
    using assms(1) k nth_mem by fastforce
  have upt: "[k..<length ds] = k # [Suc k..<length ds]" using k by (simp add: upt_conv_Cons)
  have IH: "rule_filter_loop cols thrs ds [Suc k..<length ds] (Series acc')
           = Inr (Series (foldl (\<lambda>acc v. map2 (\<and>) acc v) acc' (drop (Suc k) (conjunct_vectors cols thrs ds))))" for acc'
    using Suc k by (intro Suc.hyps(1)) simp_all
  have "k < length (conjunct_vectors cols thrs ds)" using k assms by (simp add: conjunct_vectors_length)
  then have dr: "drop k (conjunct_vectors cols thrs ds) =
      conjunct_vectors cols thrs ds ! k # drop (Suc k) (conjunct_vectors cols thrs ds)"
    by (simp add: Cons_nth_drop_Suc)
  have sf: "create_single_filter (snd (cols ! k)) (thrs ! k) (ds ! k)
           = Series (conjunct_vectors cols thrs ds ! k)"
    using k assms dk by (intro single_filter_ok) simp_all
  show ?case using k assms
    by (simp add: upt IH dr sf py_index_nat)
qed

lemma create_rule_filter_ok:
  assumes "set ds \<subseteq> {''left'', ''right''}" "length ds \<le> length cols" "length ds \<le> length thrs"
    "ds \<noteq> []"
  shows "create_rule_filter cols thrs ds = Inr (Series (and_vectors (conjunct_vectors cols thrs ds)))"
proof -
  have ne: "conjunct_vectors cols thrs ds \<noteq> []"
    using assms conjunct_vectors_length[of cols thrs ds] by (cases ds) auto
  then obtain v vs where vs: "conjunct_vectors cols thrs ds = v # vs"
    by (cases "conjunct_vectors cols thrs ds") auto
  have k: "0 < length ds" using assms by simp
  have d0: "ds ! 0 = ''left'' \<or> ds ! 0 = ''right''"
    using assms(1) k nth_mem by fastforce
  have upt: "[0..<length ds] = 0 # [Suc 0..<length ds]" using k by (simp add: upt_conv_Cons)
  have sf: "create_single_filter (snd (cols ! 0)) (thrs ! 0) (ds ! 0)
           = Series (conjunct_vectors cols thrs ds ! 0)"
    using k assms d0 by (intro single_filter_ok) auto
  have dr: "drop (Suc 0) (conjunct_vectors cols thrs ds) = vs" by (simp add: vs)
  have c0: "py_index cols 0 = Inr (cols ! 0)" "py_index thrs 0 = Inr (thrs ! 0)"
    using k assms py_index_nat[of cols 0] py_index_nat[of thrs 0] by auto
  have v0: "conjunct_vectors cols thrs ds ! 0 = v" by (simp add: vs)
  have mt: "map ((\<and>) True) v = v" by (induction v) simp_all
  have rest: "rule_filter_loop cols thrs ds [Suc 0..<length ds] (Series v)
      = Inr (Series (foldl (\<lambda>acc v. map2 (\<and>) acc v) v vs))"
  proof -
    have k1: "Suc 0 \<le> length ds" using assms(4) by (cases ds) simp_all
    show ?thesis using rule_filter_loop_ok[OF assms(1-3) k1, of v] by (simp add: dr)
  qed
  show ?thesis
    by (simp add: create_rule_filter_def upt sf c0 v0 and_vectors_def vs mt rest)
qed

lemma foldl_and_nth:
  "length acc = n \<Longrightarrow> \<forall>v\<in>set vs. length v = n \<Longrightarrow>
   length (foldl (\<lambda>acc v. map2 (\<and>) acc v) acc vs) = n \<and>
   (\<forall>r<n. foldl (\<lambda>acc v. map2 (\<and>) acc v) acc vs ! r = (acc ! r \<and> (\<forall>v\<in>set vs. v ! r)))"
proof (induction vs arbitrary: acc)
  case Nil
  then show ?case by simp
next
  case (Cons w ws)
  have len: "length (map2 (\<and>) acc w) = n" using Cons.prems by simp
  have nth: "\<And>r. r < n \<Longrightarrow> map2 (\<and>) acc w ! r = (acc ! r \<and> w ! r)"
    using Cons.prems by simp
  from Cons.IH[OF len] Cons.prems(2) nth show ?case by auto
qed

lemma and_vectors_nth:
  assumes "vs \<noteq> []" "\<forall>v\<in>set vs. length v = n"
  shows "length (and_vectors vs) = n \<and> (\<forall>r<n. and_vectors vs ! r = (\<forall>v\<in>set vs. v ! r))"
proof -
  obtain w ws where vs: "vs = w # ws" using assms(1) by (cases vs) auto
  show ?thesis using foldl_and_nth[of w n ws] assms(2)
    by (auto simp: and_vectors_def vs)
qed

lemma conjunct_vectors_nth:
  assumes "i < length ds" "length ds \<le> length cols" "length ds \<le> length thrs"
  shows "conjunct_vectors cols thrs ds ! i =
     map (\<lambda>x. if ds ! i = ''left'' then x \<le> thrs ! i else x > thrs ! i) (snd (cols ! i))"
  using assms by (simp add: conjunct_vectors_def split: prod.splits)

lemma rule_filter_rowwise0:
  assumes "set ds \<subseteq> {''left'', ''right''}" and "ds \<noteq> []"
    and "length ds \<le> length cols" and "length ds \<le> length thrs"
    and "\<forall>i<length ds. length (snd (cols ! i)) = n"
  shows "\<exists>v. create_rule_filter cols thrs ds = Inr (Series v) \<and> length v = n \<and>
           v = and_vectors (conjunct_vectors cols thrs ds) \<and>
           (\<forall>r<n. v ! r = (\<forall>i<length ds.
                if ds ! i = ''left'' then snd (cols ! i) ! r \<le> thrs ! i
                else snd (cols ! i) ! r > thrs ! i))"
proof -
  let ?vs = "conjunct_vectors cols thrs ds"
  have len: "length ?vs = length ds" using assms(3,4) by (simp add: conjunct_vectors_length)
  have ne: "?vs \<noteq> []" using len assms(2) by auto
  have alln: "\<forall>v\<in>set ?vs. length v = n"
  proof
    fix v assume "v \<in> set ?vs"
    then obtain i where i: "i < length ds" "v = ?vs ! i" using len by (auto simp: in_set_conv_nth)
    then show "length v = n" using assms(3,4,5) by (simp add: conjunct_vectors_nth)
  qed
  have rows: "and_vectors ?vs ! r = (\<forall>i<length ds.
                if ds ! i = ''left'' then snd (cols ! i) ! r \<le> thrs ! i
                else snd (cols ! i) ! r > thrs ! i)" if r: "r < n" for r
  proof -
    have "and_vectors ?vs ! r = (\<forall>v\<in>set ?vs. v ! r)"
      using and_vectors_nth[OF ne alln] r by simp
    also have "\<dots> = (\<forall>i<length ds. ?vs ! i ! r)"
      using len by (metis in_set_conv_nth)
    also have "\<dots> = (\<forall>i<length ds.
                if ds ! i = ''left'' then snd (cols ! i) ! r \<le> thrs ! i
                else snd (cols ! i) ! r > thrs ! i)"
      using assms(3,4,5) r by (auto simp: conjunct_vectors_nth)
    finally show ?thesis .
  qed
  show ?thesis
    using create_rule_filter_ok[OF assms(1,3,4,2)] and_vectors_nth[OF ne alln] rows
    by simp
qed

lemma dict_set_set: "set (dict_set rd k v) \<subseteq> insert (k, v) (set rd)"
  by (induction rd k v rule: dict_set.induct) (auto split: if_splits)

lemma dict_set_keys: "fst ` set (dict_set rd k v) = insert k (fst ` set rd)"
  by (induction rd k v rule: dict_set.induct) (auto split: if_splits simp: rev_image_eqI)

lemma py_take_err: "py_take xs is = Inl e \<Longrightarrow> e = IndexError"
  by (induction "is" arbitrary: e) (auto simp: py_index_def split: sum.splits if_splits)

lemma py_take_length: "py_take xs is = Inr vs \<Longrightarrow> length vs = length is"
  by (induction "is" arbitrary: vs) (auto split: sum.splits)

lemma follows_dirs: "follows t p ms es \<Longrightarrow> set es \<subseteq> {''left'', ''right''} \<and> length es = length ms"
  by (induction t p ms es rule: follows.induct) auto

section \<open>Every stored rule comes from an ancestor chain\<close>

lemma traverse_val_Suc_Inr:
  assumes "traverse_val (Suc d) fmt X t p rp dp rd = Inr rd'"
  obtains l r rd1 rd2 where
    "py_index (children_left t) p = Inr l" "py_index (children_right t) p = Inr r"
    "if 2 < length (rp @ [p]) then add_rule fmt X t (rp @ [p]) dp rd = Inr rd1 else rd1 = rd"
    "if 0 \<le> l then traverse_val d fmt X t l (rp @ [p]) (dp @ [''left'']) rd1 = Inr rd2
     else rd2 = rd1"
    "if 0 \<le> r then traverse_val d fmt X t r (rp @ [p]) (dp @ [''right'']) rd2 = Inr rd'
     else rd' = rd2"
proof -
  obtain l where l: "py_index (children_left t) p = Inr l"
    using assms by (cases "py_index (children_left t) p") simp_all
  obtain r where r: "py_index (children_right t) p = Inr r"
    using assms l by (cases "py_index (children_right t) p") simp_all
  define R1 where "R1 = (if 2 < length (rp @ [p])
            then add_rule fmt X t (rp @ [p]) dp rd else Inr rd)"
  define Lv where "Lv rd1 = (if l \<ge> 0
            then traverse_val d fmt X t l (rp @ [p]) (dp @ [''left'']) rd1
            else Inr rd1)" for rd1
  define Rv where "Rv rd2 = (if r \<ge> 0
            then traverse_val d fmt X t r (rp @ [p]) (dp @ [''right'']) rd2
            else Inr rd2)" for rd2
  have unfoldV: "traverse_val (Suc d) fmt X t p rp dp rd =
           (case R1 of Inl e \<Rightarrow> Inl e | Inr rd1 \<Rightarrow>
            (case Lv rd1 of Inl e \<Rightarrow> Inl e | Inr rd2 \<Rightarrow> Rv rd2))"
    unfolding R1_def Lv_def Rv_def
    by (simp only: traverse_val.simps l r sum.case)
  obtain rd1 where rd1: "R1 = Inr rd1" using assms unfolding unfoldV by (cases R1) simp_all
  obtain rd2 where rd2: "Lv rd1 = Inr rd2"
    using assms rd1 unfolding unfoldV by (cases "Lv rd1") simp_all
  have rd3: "Rv rd2 = Inr rd'" using assms rd1 rd2 unfolding unfoldV by simp
  show ?thesis
  proof (rule that[OF l r, of rd1 rd2])
    show "if 2 < length (rp @ [p]) then add_rule fmt X t (rp @ [p]) dp rd = Inr rd1 else rd1 = rd"
      using rd1 unfolding R1_def by (simp split: if_splits)
    show "if 0 \<le> l then traverse_val d fmt X t l (rp @ [p]) (dp @ [''left'']) rd1 = Inr rd2
     else rd2 = rd1" using rd2 unfolding Lv_def by (simp split: if_splits)
    show "if 0 \<le> r then traverse_val d fmt X t r (rp @ [p]) (dp @ [''right'']) rd2 = Inr rd'
     else rd' = rd2" using rd3 unfolding Rv_def by (simp split: if_splits)
  qed
qed

lemma add_rule_Inr:
  "add_rule fmt X t rp dp rd = Inr rd1 \<Longrightarrow>
   \<exists>nm v. make_rule fmt X t rp dp = Inr (nm, v) \<and> rd1 = dict_set rd nm v"
  by (auto simp: add_rule_def split: sum.splits prod.splits)

lemma traverse_val_sound:
  "traverse_val d fmt X t p rp dp rd = Inr rd' \<Longrightarrow> (nm, v) \<in> set rd' \<Longrightarrow>
   (nm, v) \<in> set rd \<or>
   (\<exists>ms es. follows t p ms es \<and> 2 < length (rp @ p # ms) \<and>
            make_rule fmt X t (rp @ p # ms) (dp @ es) = Inr (nm, v))"
proof (induction d arbitrary: p rp dp rd rd')
  case 0
  then show ?case by simp
next
  case (Suc d)
  from Suc.prems(1) obtain l r rd1 rd2 where
    l: "py_index (children_left t) p = Inr l" and r: "py_index (children_right t) p = Inr r"
    and s1: "if 2 < length (rp @ [p]) then add_rule fmt X t (rp @ [p]) dp rd = Inr rd1 else rd1 = rd"
    and s2: "if 0 \<le> l then traverse_val d fmt X t l (rp @ [p]) (dp @ [''left'']) rd1 = Inr rd2
     else rd2 = rd1"
    and s3: "if 0 \<le> r then traverse_val d fmt X t r (rp @ [p]) (dp @ [''right'']) rd2 = Inr rd'
     else rd' = rd2"
    by (rule traverse_val_Suc_Inr)
  let ?here = "\<exists>ms es. follows t p ms es \<and> 2 < length (rp @ p # ms) \<and>
            make_rule fmt X t (rp @ p # ms) (dp @ es) = Inr (nm, v)"
  have step1: "(nm, v) \<in> set rd \<or> ?here" if "(nm, v) \<in> set rd1"
  proof (cases "2 < length (rp @ [p])")
    case False then show ?thesis using s1 that by simp
  next
    case True
    then obtain nm' v' where mk: "make_rule fmt X t (rp @ [p]) dp = Inr (nm', v')"
      and rd1: "rd1 = dict_set rd nm' v'" using s1 add_rule_Inr by fastforce
    show ?thesis
    proof (cases "(nm, v) \<in> set rd")
      case True then show ?thesis by simp
    next
      case False
      then have "(nm, v) = (nm', v')" using that rd1 dict_set_set[of rd nm' v'] by auto
      then have "follows t p [] [] \<and> 2 < length (rp @ p # []) \<and>
            make_rule fmt X t (rp @ p # []) (dp @ []) = Inr (nm, v)"
        using mk True by simp
      then show ?thesis by blast
    qed
  qed
  have step2: "(nm, v) \<in> set rd \<or> ?here" if "(nm, v) \<in> set rd2"
  proof (cases "0 \<le> l")
    case False then show ?thesis using s2 that step1 by simp
  next
    case True
    then have tv: "traverse_val d fmt X t l (rp @ [p]) (dp @ [''left'']) rd1 = Inr rd2"
      using s2 by simp
    from Suc.IH[OF tv that] show ?thesis
    proof
      assume "(nm, v) \<in> set rd1" then show ?thesis by (rule step1)
    next
      assume "\<exists>ms es. follows t l ms es \<and> 2 < length ((rp @ [p]) @ l # ms) \<and>
         make_rule fmt X t ((rp @ [p]) @ l # ms) ((dp @ [''left'']) @ es) = Inr (nm, v)"
      then obtain ms es where f: "follows t l ms es" and len: "2 < length ((rp @ [p]) @ l # ms)"
        and mk: "make_rule fmt X t ((rp @ [p]) @ l # ms) ((dp @ [''left'']) @ es) = Inr (nm, v)"
        by blast
      have "follows t p (l # ms) (''left'' # es)" using f l True by simp
      moreover have "2 < length (rp @ p # l # ms)" using len by simp
      moreover have "make_rule fmt X t (rp @ p # l # ms) (dp @ ''left'' # es) = Inr (nm, v)"
        using mk by simp
      ultimately show ?thesis by blast
    qed
  qed
  show ?case
  proof (cases "0 \<le> r")
    case False then show ?thesis using s3 Suc.prems(2) step2 by simp
  next
    case True
    then have tv: "traverse_val d fmt X t r (rp @ [p]) (dp @ [''right'']) rd2 = Inr rd'"
      using s3 by simp
    from Suc.IH[OF tv Suc.prems(2)] show ?thesis
    proof
      assume "(nm, v) \<in> set rd2" then show ?thesis by (rule step2)
    next
      assume "\<exists>ms es. follows t r ms es \<and> 2 < length ((rp @ [p]) @ r # ms) \<and>
         make_rule fmt X t ((rp @ [p]) @ r # ms) ((dp @ [''right'']) @ es) = Inr (nm, v)"
      then obtain ms es where f: "follows t r ms es" and len: "2 < length ((rp @ [p]) @ r # ms)"
        and mk: "make_rule fmt X t ((rp @ [p]) @ r # ms) ((dp @ [''right'']) @ es) = Inr (nm, v)"
        by blast
      have "follows t p (r # ms) (''right'' # es)" using f r True by simp
      moreover have "2 < length (rp @ p # r # ms)" using len by simp
      moreover have "make_rule fmt X t (rp @ p # r # ms) (dp @ ''right'' # es) = Inr (nm, v)"
        using mk by simp
      ultimately show ?thesis by blast
    qed
  qed
qed

lemma entries_from_chains:
  assumes "create_tree_rule_filters d fmt X t = Inr rd" "(nm, v) \<in> set rd"
  shows "\<exists>ns ds. ancestor_chain t ns ds \<and> 2 < length ns \<and> make_rule fmt X t ns ds = Inr (nm, v)"
proof -
  have "traverse_val d fmt X t 0 [] [] [] = Inr rd"
    using assms(1) by (simp add: create_tree_rule_filters_val)
  from traverse_val_sound[OF this assms(2)]
  obtain ms es where "follows t 0 ms es" "2 < length (0 # ms)"
    "make_rule fmt X t (0 # ms) es = Inr (nm, v)" by auto
  then have "ancestor_chain t (0 # ms) es \<and> 2 < length (0 # ms) \<and>
     make_rule fmt X t (0 # ms) es = Inr (nm, v)" by (simp add: ancestor_chain_def)
  then show ?thesis by blast
qed

section \<open>Every long ancestor chain has its rule\<close>

lemma traverse_val_keys_mono:
  "traverse_val d fmt X t p rp dp rd = Inr rd' \<Longrightarrow> fst ` set rd \<subseteq> fst ` set rd'"
proof (induction d arbitrary: p rp dp rd rd')
  case 0
  then show ?case by simp
next
  case (Suc d)
  from Suc.prems(1) obtain l r rd1 rd2 where
    s1: "if 2 < length (rp @ [p]) then add_rule fmt X t (rp @ [p]) dp rd = Inr rd1 else rd1 = rd"
    and s2: "if 0 \<le> l then traverse_val d fmt X t l (rp @ [p]) (dp @ [''left'']) rd1 = Inr rd2
     else rd2 = rd1"
    and s3: "if 0 \<le> r then traverse_val d fmt X t r (rp @ [p]) (dp @ [''right'']) rd2 = Inr rd'
     else rd' = rd2"
    by (rule traverse_val_Suc_Inr)
  have k1: "fst ` set rd \<subseteq> fst ` set rd1"
  proof (cases "2 < length (rp @ [p])")
    case False then show ?thesis using s1 by simp
  next
    case True
    then obtain nm v where "rd1 = dict_set rd nm v" using s1 add_rule_Inr by fastforce
    then show ?thesis by (simp add: dict_set_keys subset_insertI)
  qed
  have k2: "fst ` set rd1 \<subseteq> fst ` set rd2"
    using s2 Suc.IH[of l "rp @ [p]" "dp @ [''left'']" rd1 rd2] by (cases "0 \<le> l") simp_all
  have k3: "fst ` set rd2 \<subseteq> fst ` set rd'"
    using s3 Suc.IH[of r "rp @ [p]" "dp @ [''right'']" rd2 rd'] by (cases "0 \<le> r") simp_all
  from k1 k2 k3 show ?case by blast
qed

lemma traverse_val_complete:
  "traverse_val d fmt X t p rp dp rd = Inr rd' \<Longrightarrow> follows t p ms es \<Longrightarrow>
   2 < length (rp @ p # ms) \<Longrightarrow>
   \<exists>nm v. make_rule fmt X t (rp @ p # ms) (dp @ es) = Inr (nm, v) \<and> nm \<in> fst ` set rd'"
proof (induction d arbitrary: p rp dp rd rd' ms es)
  case 0
  then show ?case by simp
next
  case (Suc d)
  from Suc.prems(1) obtain l r rd1 rd2 where
    l: "py_index (children_left t) p = Inr l" and r: "py_index (children_right t) p = Inr r"
    and s1: "if 2 < length (rp @ [p]) then add_rule fmt X t (rp @ [p]) dp rd = Inr rd1 else rd1 = rd"
    and s2: "if 0 \<le> l then traverse_val d fmt X t l (rp @ [p]) (dp @ [''left'']) rd1 = Inr rd2
     else rd2 = rd1"
    and s3: "if 0 \<le> r then traverse_val d fmt X t r (rp @ [p]) (dp @ [''right'']) rd2 = Inr rd'
     else rd' = rd2"
    by (rule traverse_val_Suc_Inr)
  have k2: "fst ` set rd1 \<subseteq> fst ` set rd2"
    using s2 traverse_val_keys_mono[of d fmt X t l "rp @ [p]" "dp @ [''left'']" rd1 rd2]
    by (cases "0 \<le> l") simp_all
  have k3: "fst ` set rd2 \<subseteq> fst ` set rd'"
    using s3 traverse_val_keys_mono[of d fmt X t r "rp @ [p]" "dp @ [''right'']" rd2 rd']
    by (cases "0 \<le> r") simp_all
  show ?case
  proof (cases ms)
    case Nil
    then have es: "es = []" using Suc.prems(2) by (cases es) simp_all
    have long: "2 < length (rp @ [p])" using Suc.prems(3) Nil by simp
    then obtain nm v where mk: "make_rule fmt X t (rp @ [p]) dp = Inr (nm, v)"
      and rd1: "rd1 = dict_set rd nm v" using s1 add_rule_Inr by fastforce
    have "nm \<in> fst ` set rd1" by (simp add: rd1 dict_set_keys)
    then have "nm \<in> fst ` set rd'" using k2 k3 by blast
    then show ?thesis using mk Nil es by auto
  next
    case (Cons c ms')
    then obtain e es' where es: "es = e # es'" using Suc.prems(2) by (cases es) simp_all
    have f: "(e = ''left'' \<and> py_index (children_left t) p = Inr c \<or>
              e = ''right'' \<and> py_index (children_right t) p = Inr c)"
      and c0: "0 \<le> c" and f': "follows t c ms' es'"
      using Suc.prems(2) Cons es by simp_all
    from f show ?thesis
    proof
      assume a: "e = ''left'' \<and> py_index (children_left t) p = Inr c"
      then have cl: "c = l" using l by simp
      then have tv: "traverse_val d fmt X t c (rp @ [p]) (dp @ [''left'']) rd1 = Inr rd2"
        using s2 c0 by simp
      have "2 < length ((rp @ [p]) @ c # ms')" using Suc.prems(3) Cons by simp
      from Suc.IH[OF tv f' this]
      obtain nm v where "make_rule fmt X t ((rp @ [p]) @ c # ms') ((dp @ [''left'']) @ es') = Inr (nm, v)"
        "nm \<in> fst ` set rd2" by blast
      then show ?thesis using k3 a Cons es by auto
    next
      assume a: "e = ''right'' \<and> py_index (children_right t) p = Inr c"
      then have cl: "c = r" using r by simp
      then have tv: "traverse_val d fmt X t c (rp @ [p]) (dp @ [''right'']) rd2 = Inr rd'"
        using s3 c0 by simp
      have "2 < length ((rp @ [p]) @ c # ms')" using Suc.prems(3) Cons by simp
      from Suc.IH[OF tv f' this]
      obtain nm v where "make_rule fmt X t ((rp @ [p]) @ c # ms') ((dp @ [''right'']) @ es') = Inr (nm, v)"
        "nm \<in> fst ` set rd'" by blast
      then show ?thesis using a Cons es by auto
    qed
  qed
qed

lemma chains_have_rules:
  assumes "create_tree_rule_filters d fmt X t = Inr rd" "ancestor_chain t ns ds" "2 < length ns"
  shows "\<exists>nm v. make_rule fmt X t ns ds = Inr (nm, v) \<and> nm \<in> fst ` set rd"
proof -
  have tv: "traverse_val d fmt X t 0 [] [] [] = Inr rd"
    using assms(1) by (simp add: create_tree_rule_filters_val)
  obtain ms where ns: "ns = 0 # ms" and f: "follows t 0 ms ds"
    using assms(2) by (cases ns) (simp_all add: ancestor_chain_def)
  have "2 < length ([] @ 0 # ms)" using assms(3) ns by simp
  from traverse_val_complete[OF tv f this] show ?thesis using ns by simp
qed

lemma ancestor_chain_dirs:
  "ancestor_chain t ns ds \<Longrightarrow> set ds \<subseteq> {''left'', ''right''} \<and> length ds + 1 = length ns"
proof -
  assume a: "ancestor_chain t ns ds"
  then obtain ms where ns: "ns = 0 # ms" and f: "follows t 0 ms ds"
    by (cases ns) (simp_all add: ancestor_chain_def)
  from follows_dirs[OF f] show ?thesis by (simp add: ns)
qed

lemma make_rule_Inr:
  assumes "make_rule fmt X t ns ds = Inr (nm, v)"
    and "set ds \<subseteq> {''left'', ''right''}" "ds \<noteq> []" "length ds \<le> length ns"
  shows "\<exists>fs cols thrs. py_take (feature t) ns = Inr fs \<and> py_take X fs = Inr cols \<and>
           py_take (threshold t) ns = Inr thrs \<and>
           nm = join_names (conjunct_names fmt cols thrs ds) \<and>
           v = Series (and_vectors (conjunct_vectors cols thrs ds))"
proof -
  obtain fs where fs: "py_take (feature t) ns = Inr fs"
    using assms(1) by (cases "py_take (feature t) ns") (simp_all add: make_rule_def)
  obtain cols where cols: "py_take X fs = Inr cols"
    using assms(1) fs by (cases "py_take X fs") (simp_all add: make_rule_def)
  obtain thrs where thrs: "py_take (threshold t) ns = Inr thrs"
    using assms(1) fs cols by (cases "py_take (threshold t) ns") (simp_all add: make_rule_def)
  have lc: "length ds \<le> length cols"
    using py_take_length[OF fs] py_take_length[OF cols] assms(4) by simp
  have lt: "length ds \<le> length thrs" using py_take_length[OF thrs] assms(4) by simp
  show ?thesis
    using assms(1) fs cols thrs
      create_rule_filter_ok[OF assms(2) lc lt assms(3)]
      create_rule_filter_name_ok[OF assms(2) lc lt assms(3), of fmt]
    by (simp add: make_rule_def)
qed

section \<open>Claims about the filter and the name\<close>

text \<open>
  C3. For a direction sequence of \<open>left\<close>/\<open>right\<close> entries that is not empty and not
  longer than the selected columns and thresholds, over columns of \<open>n\<close> rows each,
  \<open>_create_rule_filter\<close> returns a boolean Series of length \<open>n\<close> whose value at each
  row is the conjunction, over the positions \<open>i\<close> of the direction sequence, of
  \<open>column i \<le> threshold i\<close> for \<open>left\<close> and \<open>column i > threshold i\<close> for \<open>right\<close>; it is the
  row-wise AND of the per-position comparison vectors.
\<close>

theorem create_rule_filter_rowwise:
  assumes "set ds \<subseteq> {''left'', ''right''}" and "ds \<noteq> []"
    and "length ds \<le> length cols" and "length ds \<le> length thrs"
    and "\<forall>i<length ds. length (snd (cols ! i)) = n"
  shows "\<exists>v. create_rule_filter cols thrs ds = Inr (Series v) \<and> length v = n \<and>
           v = and_vectors (conjunct_vectors cols thrs ds) \<and>
           (\<forall>r<n. v ! r = (\<forall>i<length ds.
                if ds ! i = ''left'' then snd (cols ! i) ! r \<le> thrs ! i
                else snd (cols ! i) ! r > thrs ! i))"
  using assms by (rule rule_filter_rowwise0)

theorem create_rule_filter_rowwise_witness:
  "set [''right'', ''left''] \<subseteq> {''left'', ''right''} \<and> [''right'', ''left''] \<noteq> [] \<and>
   length [''right'', ''left''] \<le> length data2 \<and>
   length [''right'', ''left''] \<le> length [5, 10 :: int] \<and>
   list_all (\<lambda>col. length (snd col) = 3) data2 \<and>
   (\<exists>v. create_rule_filter data2 [5, 10] [''right'', ''left''] = Inr (Series v) \<and>
        length v = 3 \<and>
        v = and_vectors (conjunct_vectors data2 [5, 10] [''right'', ''left'']) \<and>
        (\<forall>r<3. v ! r = (\<forall>i<length [''right'', ''left''].
             if [''right'', ''left''] ! i = ''left'' then snd (data2 ! i) ! r \<le> [5, 10] ! i
             else snd (data2 ! i) ! r > [5, 10] ! i)))"
proof -
  have h1: "set [''right'', ''left''] \<subseteq> {''left'', ''right''}" by simp
  have h2: "[''right'', ''left''] \<noteq> []" by simp
  have h3: "length [''right'', ''left''] \<le> length data2" by (simp add: data2_def)
  have h4: "length [''right'', ''left''] \<le> length [5, 10 :: int]" by simp
  have h5: "\<forall>i<length [''right'', ''left'']. length (snd (data2 ! i)) = 3"
    by (simp add: data2_def All_less_Suc)
  have h6: "list_all (\<lambda>col. length (snd col) = 3) data2" by (simp add: data2_def)
  from create_rule_filter_rowwise[OF h1 h2 h3 h4 h5] h1 h2 h3 h4 h6
  show ?thesis by blast
qed

text \<open>
  C4. Under the same conditions \<open>_create_rule_filter_name\<close> returns the per-position
  texts \<open>column name, operator, threshold\<close>, one for each position of the direction
  sequence, with \<open><=\<close> for \<open>left\<close> and \<open>>\<close> for \<open>right\<close>, joined by \<open>" & "\<close> from the first
  position (the root's split) to the last.
\<close>

theorem create_rule_filter_name_joined:
  assumes "set ds \<subseteq> {''left'', ''right''}" and "ds \<noteq> []"
    and "length ds \<le> length cols" and "length ds \<le> length thrs"
  shows "create_rule_filter_name fmt cols thrs ds
           = Inr (join_names (conjunct_names fmt cols thrs ds)) \<and>
         length (conjunct_names fmt cols thrs ds) = length ds \<and>
         (\<forall>i<length ds. conjunct_names fmt cols thrs ds ! i =
            fst (cols ! i) @ '' '' @ (if ds ! i = ''left'' then ''<='' else ''>'') @ '' '' @
            fmt (thrs ! i))"
proof -
  have "\<forall>i<length ds. conjunct_names fmt cols thrs ds ! i =
            fst (cols ! i) @ '' '' @ (if ds ! i = ''left'' then ''<='' else ''>'') @ '' '' @
            fmt (thrs ! i)"
    using assms(3,4) by (simp add: conjunct_names_def split: prod.splits)
  then show ?thesis
    using create_rule_filter_name_ok[OF assms(1,3,4,2), of fmt] assms(3,4)
    by (simp add: conjunct_names_length)
qed

theorem create_rule_filter_name_joined_witness:
  "set [''right'', ''left''] \<subseteq> {''left'', ''right''} \<and> [''right'', ''left''] \<noteq> [] \<and>
   length [''right'', ''left''] \<le> length data2 \<and>
   length [''right'', ''left''] \<le> length [5, 10 :: int] \<and>
   create_rule_filter_name fmt0 data2 [5, 10] [''right'', ''left'']
     = Inr ''a > 5.0 & b <= 10.0''"
proof -
  have h1: "set [''right'', ''left''] \<subseteq> {''left'', ''right''}" by simp
  have h2: "[''right'', ''left''] \<noteq> []" by simp
  have h3: "length [''right'', ''left''] \<le> length data2" by (simp add: data2_def)
  have h4: "length [''right'', ''left''] \<le> length [5, 10 :: int]" by simp
  have "join_names (conjunct_names fmt0 data2 [5, 10] [''right'', ''left''])
          = ''a > 5.0 & b <= 10.0''"
    by (simp add: conjunct_names_def data2_def fmt0_def)
  with create_rule_filter_name_joined[OF h1 h2 h3 h4, of fmt0] h1 h2 h3 h4
  show ?thesis by simp
qed

section \<open>The five-node tree, run\<close>

lemma tree5_run:
  "traverse 10 fmt0 data2 tree5 0 0 [] ([[]], []) =
     Inr ([[0], [0, 1], [0, 2], [0, 2, 3], [0, 2, 4]],
          [(''a > 5.0 & b <= 10.0'', Series [False, True, False]),
           (''a > 5.0 & b > 10.0'', Series [False, False, True])])"
  by code_simp

lemma tree5_rules:
  "create_tree_rule_filters 10 fmt0 data2 tree5 =
     Inr [(''a > 5.0 & b <= 10.0'', Series [False, True, False]),
          (''a > 5.0 & b > 10.0'', Series [False, False, True])]"
  by (simp add: create_tree_rule_filters_def tree5_run)

lemma tree5_leaf_rule:
  "make_rule fmt0 data2 tree5 [0, 2, 3] [''right'', ''left'']
     = Inr (''a > 5.0 & b <= 10.0'', Series [False, True, False])"
  by code_simp

lemma tree5_leaf_chain:
  "ancestor_chain tree5 [0, 2, 3] [''right'', ''left''] \<and> is_leaf tree5 3"
  by code_simp

section \<open>Claims about which rules are stored\<close>

text \<open>
  C1, as stated, fails on the five-node tree: both stored rules belong to paths that end
  in a leaf. The path \<open>0, 2, 3\<close> (right, then left) ends at node 3, a leaf, and its rule
  is the first entry of the result.
\<close>

theorem rule_at_leaf_counterexample:
  "create_tree_rule_filters 10 fmt0 data2 tree5 =
     Inr [(''a > 5.0 & b <= 10.0'', Series [False, True, False]),
          (''a > 5.0 & b > 10.0'', Series [False, False, True])] \<and>
   ancestor_chain tree5 [0, 2, 3] [''right'', ''left''] \<and> is_leaf tree5 3 \<and>
   make_rule fmt0 data2 tree5 [0, 2, 3] [''right'', ''left'']
     = Inr (''a > 5.0 & b <= 10.0'', Series [False, True, False])"
  using tree5_rules tree5_leaf_chain tree5_leaf_rule by simp

text \<open>
  C1, amended. The test before storing a rule is on the length of the node-index path
  only, so leaves are included: when the traversal returns, every path from the root
  with more than two node indices, whether it ends in a leaf or not, has its rule's name
  among the keys, and every stored entry is the rule of such a path.
\<close>

theorem rules_at_every_long_path:
  assumes "create_tree_rule_filters d fmt X t = Inr rules"
  shows "(\<forall>ns ds. ancestor_chain t ns ds \<and> 2 < length ns \<longrightarrow>
            (\<exists>nm v. make_rule fmt X t ns ds = Inr (nm, v) \<and> nm \<in> fst ` set rules)) \<and>
         (\<forall>nm v. (nm, v) \<in> set rules \<longrightarrow>
            (\<exists>ns ds. ancestor_chain t ns ds \<and> 2 < length ns \<and>
                     make_rule fmt X t ns ds = Inr (nm, v)))"
  using chains_have_rules[OF assms] entries_from_chains[OF assms] by blast

theorem rules_at_every_long_path_witness:
  "create_tree_rule_filters 10 fmt0 data2 tree5 =
     Inr [(''a > 5.0 & b <= 10.0'', Series [False, True, False]),
          (''a > 5.0 & b > 10.0'', Series [False, False, True])] \<and>
   ancestor_chain tree5 [0, 2, 3] [''right'', ''left''] \<and> is_leaf tree5 3 \<and>
   (\<exists>nm v. make_rule fmt0 data2 tree5 [0, 2, 3] [''right'', ''left''] = Inr (nm, v) \<and>
      nm \<in> fst ` set [(''a > 5.0 & b <= 10.0'', Series [False, True, False]),
                       (''a > 5.0 & b > 10.0'', Series [False, False, True])])"
proof -
  have len: "2 < length [0, 2, 3 :: int]" by simp
  from rules_at_every_long_path[OF tree5_rules] tree5_leaf_chain len
  have "\<exists>nm v. make_rule fmt0 data2 tree5 [0, 2, 3] [''right'', ''left''] = Inr (nm, v) \<and>
      nm \<in> fst ` set [(''a > 5.0 & b <= 10.0'', Series [False, True, False]),
                       (''a > 5.0 & b > 10.0'', Series [False, False, True])]"
    by blast
  then show ?thesis using tree5_rules tree5_leaf_chain by blast
qed

text \<open>
  C6. An activation of \<open>_traverse\<close> that returns has appended its own node to the list
  it was given and has left every other list of its caller's store as it was, so what
  the left call did to its copy is not seen by the right call (it computes what the
  traversal by value computes); and every stored rule is the rule of a path from the
  root read off \<open>children_left\<close>/\<open>children_right\<close>, with the directions of that path.
\<close>

theorem sibling_branches_isolated:
  "(\<forall>store' rd'. a < length store \<and>
       traverse d fmt X t p a dp (store, rd) = Inr (store', rd') \<longrightarrow>
       store' ! a = store ! a @ [p] \<and>
       (\<forall>b<length store. b \<noteq> a \<longrightarrow> store' ! b = store ! b) \<and>
       traverse_val d fmt X t p (store ! a) dp rd = Inr rd') \<and>
   (\<forall>rules nm v. create_tree_rule_filters d fmt X t = Inr rules \<and> (nm, v) \<in> set rules \<longrightarrow>
       (\<exists>ns ds. ancestor_chain t ns ds \<and> 2 < length ns \<and>
                make_rule fmt X t ns ds = Inr (nm, v)))"
proof (intro conjI allI impI)
  fix store' rd'
  assume a: "a < length store \<and> traverse d fmt X t p a dp (store, rd) = Inr (store', rd')"
  then have "store_agrees store a [p] (Inr (store', rd'))
     (traverse_val d fmt X t p (store ! a) dp rd)"
    using traverse_store[of a store p d fmt X t dp rd] by simp
  then show "store' ! a = store ! a @ [p]"
    and "\<And>b. b < length store \<Longrightarrow> b \<noteq> a \<Longrightarrow> store' ! b = store ! b"
    and "traverse_val d fmt X t p (store ! a) dp rd = Inr rd'"
    by (simp_all add: store_agrees_def)
next
  fix rules nm v
  assume "create_tree_rule_filters d fmt X t = Inr rules \<and> (nm, v) \<in> set rules"
  then show "\<exists>ns ds. ancestor_chain t ns ds \<and> 2 < length ns \<and>
                make_rule fmt X t ns ds = Inr (nm, v)"
    using entries_from_chains by blast
qed

theorem sibling_branches_isolated_witness:
  "traverse 10 fmt0 data2 tree5 0 0 [] ([[]], []) =
     Inr ([[0], [0, 1], [0, 2], [0, 2, 3], [0, 2, 4]],
          [(''a > 5.0 & b <= 10.0'', Series [False, True, False]),
           (''a > 5.0 & b > 10.0'', Series [False, False, True])]) \<and>
   traverse_val 10 fmt0 data2 tree5 0 ([[]] ! 0) [] [] =
     Inr [(''a > 5.0 & b <= 10.0'', Series [False, True, False]),
          (''a > 5.0 & b > 10.0'', Series [False, False, True])] \<and>
   (\<exists>ns ds. ancestor_chain tree5 ns ds \<and> 2 < length ns \<and>
      make_rule fmt0 data2 tree5 ns ds = Inr (''a > 5.0 & b > 10.0'', Series [False, False, True]))"
proof -
  have a: "(0::nat) < length [[]::int list]" by simp
  have m: "(''a > 5.0 & b > 10.0'', Series [False, False, True])
     \<in> set [(''a > 5.0 & b <= 10.0'', Series [False, True, False]),
            (''a > 5.0 & b > 10.0'', Series [False, False, True])]" by simp
  from sibling_branches_isolated[of 0 "[[]]" 10 fmt0 data2 tree5 0 "[]" "[]"] a tree5_run
  have v: "traverse_val 10 fmt0 data2 tree5 0 ([[]] ! 0) [] [] =
     Inr [(''a > 5.0 & b <= 10.0'', Series [False, True, False]),
          (''a > 5.0 & b > 10.0'', Series [False, False, True])]" by blast
  from sibling_branches_isolated[of 0 "[[]]" 10 fmt0 data2 tree5 0 "[]" "[]"] tree5_rules m
  have c: "\<exists>ns ds. ancestor_chain tree5 ns ds \<and> 2 < length ns \<and>
      make_rule fmt0 data2 tree5 ns ds = Inr (''a > 5.0 & b > 10.0'', Series [False, False, True])"
    by blast
  from tree5_run v c show ?thesis by blast
qed

text \<open>
  C5. Every stored entry belongs to a path from the root with one direction per edge
  (\<open>len(directions)\<close> is the length of the node-index path minus one); its name is the
  join of exactly that many per-position texts and its vector the row-wise AND of exactly
  that many comparison vectors, taken from the columns and thresholds of the ancestors.
\<close>

theorem conjunct_count:
  assumes "create_tree_rule_filters d fmt X t = Inr rules" and "(nm, v) \<in> set rules"
  shows "\<exists>ns ds fs cols thrs.
           ancestor_chain t ns ds \<and> 2 < length ns \<and> length ds = length ns - 1 \<and>
           py_take (feature t) ns = Inr fs \<and> py_take X fs = Inr cols \<and>
           py_take (threshold t) ns = Inr thrs \<and>
           nm = join_names (conjunct_names fmt cols thrs ds) \<and>
           length (conjunct_names fmt cols thrs ds) = length ds \<and>
           v = Series (and_vectors (conjunct_vectors cols thrs ds)) \<and>
           length (conjunct_vectors cols thrs ds) = length ds"
proof -
  from entries_from_chains[OF assms] obtain ns ds where
    ch: "ancestor_chain t ns ds" and long: "2 < length ns"
    and mk: "make_rule fmt X t ns ds = Inr (nm, v)" by blast
  from ancestor_chain_dirs[OF ch] have dirs: "set ds \<subseteq> {''left'', ''right''}"
    and len: "length ds + 1 = length ns" by simp_all
  have ne: "ds \<noteq> []" using len long by auto
  have le: "length ds \<le> length ns" using len by simp
  from make_rule_Inr[OF mk dirs ne le] obtain fs cols thrs where
    fs: "py_take (feature t) ns = Inr fs" and cols: "py_take X fs = Inr cols"
    and thrs: "py_take (threshold t) ns = Inr thrs"
    and nm: "nm = join_names (conjunct_names fmt cols thrs ds)"
    and v: "v = Series (and_vectors (conjunct_vectors cols thrs ds))" by blast
  have lc: "length cols = length ns" using py_take_length[OF fs] py_take_length[OF cols] by simp
  have lt: "length thrs = length ns" using py_take_length[OF thrs] by simp
  have n1: "length (conjunct_names fmt cols thrs ds) = length ds"
    using lc lt len by (simp add: conjunct_names_length)
  have n2: "length (conjunct_vectors cols thrs ds) = length ds"
    using lc lt len by (simp add: conjunct_vectors_length)
  have l1: "length ds = length ns - 1" using len by simp
  show ?thesis using ch long l1 fs cols thrs nm n1 v n2 by blast
qed

theorem conjunct_count_witness:
  "create_tree_rule_filters 10 fmt0 data2 tree5 =
     Inr [(''a > 5.0 & b <= 10.0'', Series [False, True, False]),
          (''a > 5.0 & b > 10.0'', Series [False, False, True])] \<and>
   (\<exists>ns ds fs cols thrs.
           ancestor_chain tree5 ns ds \<and> 2 < length ns \<and> length ds = length ns - 1 \<and>
           py_take (feature tree5) ns = Inr fs \<and> py_take data2 fs = Inr cols \<and>
           py_take (threshold tree5) ns = Inr thrs \<and>
           ''a > 5.0 & b <= 10.0'' = join_names (conjunct_names fmt0 cols thrs ds) \<and>
           length (conjunct_names fmt0 cols thrs ds) = length ds \<and>
           Series [False, True, False] = Series (and_vectors (conjunct_vectors cols thrs ds)) \<and>
           length (conjunct_vectors cols thrs ds) = length ds)"
proof -
  have m: "(''a > 5.0 & b <= 10.0'', Series [False, True, False])
     \<in> set [(''a > 5.0 & b <= 10.0'', Series [False, True, False]),
            (''a > 5.0 & b > 10.0'', Series [False, False, True])]" by simp
  from conjunct_count[OF tree5_rules m] tree5_rules show ?thesis by blast
qed

section \<open>Shallow trees and empty inputs\<close>

lemma leaf_visit:
  assumes "is_leaf t c" "length rp < 2"
  shows "traverse_val (Suc d) fmt X t c rp dp rd = Inr rd"
proof -
  obtain l where l: "py_index (children_left t) c = Inr l"
    using assms(1) by (cases "py_index (children_left t) c") (simp_all add: is_leaf_def)
  obtain r where r: "py_index (children_right t) c = Inr r"
    using assms(1) l by (cases "py_index (children_right t) c") (simp_all add: is_leaf_def)
  have neg: "l < 0" "r < 0" using assms(1) l r by (simp_all add: is_leaf_def)
  show ?thesis using l r neg assms(2) by simp
qed

lemma data0_rules:
  "create_tree_rule_filters 10 fmt0 data0 tree5 =
     Inr [(''a > 5.0 & b <= 10.0'', Series []), (''a > 5.0 & b > 10.0'', Series [])]"
  by code_simp

lemma no_columns_error:
  "create_tree_rule_filters 10 fmt0 [] tree5 = Inl IndexError"
  by code_simp

text \<open>
  C2, as stated, fails on the five-node tree it names: the two leaves below the right
  child have node-index paths of length 3, and each gets a rule.
\<close>

theorem five_node_tree_counterexample:
  "create_tree_rule_filters 10 fmt0 data2 tree5 =
     Inr [(''a > 5.0 & b <= 10.0'', Series [False, True, False]),
          (''a > 5.0 & b > 10.0'', Series [False, False, True])] \<and>
   create_tree_rule_filters 10 fmt0 data2 tree5 \<noteq> Inr []"
  by (simp add: tree5_rules)

text \<open>
  C2, amended. When every path from the root has at most two node indices, that is, when
  each existing child of the root is a leaf, the traversal returns the empty dict (with
  room for two nested activations).
\<close>

theorem shallow_tree_no_rules:
  assumes "py_index (children_left t) 0 = Inr l" and "py_index (children_right t) 0 = Inr r"
    and "0 \<le> l \<longrightarrow> is_leaf t l" and "0 \<le> r \<longrightarrow> is_leaf t r"
  shows "create_tree_rule_filters (Suc (Suc d)) fmt X t = Inr []"
proof -
  have L: "(if 0 \<le> l then traverse_val (Suc d) fmt X t l ([] @ [0]) ([] @ [''left'']) []
            else Inr []) = Inr []"
    using assms(3) leaf_visit[of t l "[] @ [0]" d fmt X "[] @ [''left'']" "[]"]
    by (cases "0 \<le> l") (simp_all del: traverse_val.simps)
  have R: "(if 0 \<le> r then traverse_val (Suc d) fmt X t r ([] @ [0]) ([] @ [''right'']) []
            else Inr []) = Inr []"
    using assms(4) leaf_visit[of t r "[] @ [0]" d fmt X "[] @ [''right'']" "[]"]
    by (cases "0 \<le> r") (simp_all del: traverse_val.simps)
  have A: "(if 2 < length ([] @ [0::int]) then add_rule fmt X t ([] @ [0]) [] []
            else Inr []) = Inr []" by simp
  have "traverse_val (Suc (Suc d)) fmt X t 0 [] [] [] = Inr []"
    by (simp only: traverse_val.simps(2)[of "Suc d" fmt X t 0 "[]" "[]" "[]"]
          assms(1,2) sum.case A L R)
  then show ?thesis by (simp add: create_tree_rule_filters_val)
qed

theorem shallow_tree_no_rules_witness:
  "py_index (children_left tree3) 0 = Inr 1 \<and> py_index (children_right tree3) 0 = Inr 2 \<and>
   is_leaf tree3 1 \<and> is_leaf tree3 2 \<and>
   create_tree_rule_filters (Suc (Suc 0)) fmt0 data2 tree3 = Inr []"
proof -
  have h1: "py_index (children_left tree3) 0 = Inr 1" by code_simp
  have h2: "py_index (children_right tree3) 0 = Inr 2" by code_simp
  have h3: "is_leaf tree3 1" by code_simp
  have h4: "is_leaf tree3 2" by code_simp
  from shallow_tree_no_rules[OF h1 h2, of 0 fmt0 data2] h1 h2 h3 h4 show ?thesis by simp
qed

text \<open>
  C7, as stated, fails for the empty data frames: on the five-node tree a frame with two
  columns and no rows yields two rules with empty vectors, and a frame with no columns
  makes the column selection raise.
\<close>

theorem empty_dataset_counterexample:
  "create_tree_rule_filters 10 fmt0 data0 tree5 =
     Inr [(''a > 5.0 & b <= 10.0'', Series []), (''a > 5.0 & b > 10.0'', Series [])] \<and>
   create_tree_rule_filters 10 fmt0 [] tree5 = Inl IndexError"
  by (simp add: data0_rules no_columns_error)

text \<open>
  C7, amended. When the root is itself a leaf the traversal returns the empty dict
  without an error, whatever the data frame (also one without columns or without rows).
\<close>

theorem leaf_root_no_rules:
  assumes "is_leaf t 0"
  shows "create_tree_rule_filters (Suc d) fmt X t = Inr []"
  using leaf_visit[OF assms, of "[]" d fmt X "[]" "[]"]
  by (simp add: create_tree_rule_filters_val)

theorem leaf_root_no_rules_witness:
  "is_leaf tree1 0 \<and> create_tree_rule_filters (Suc 0) fmt0 [] tree1 = Inr [] \<and>
   create_tree_rule_filters (Suc 0) fmt0 data0 tree1 = Inr []"
proof -
  have h: "is_leaf tree1 0" by code_simp
  from leaf_root_no_rules[OF h, of 0 fmt0 "[]"] leaf_root_no_rules[OF h, of 0 fmt0 data0] h
  show ?thesis by simp
qed

section \<open>Which errors the traversal can end with\<close>

lemma py_index_err: "py_index xs i = Inl e \<Longrightarrow> e = IndexError"
  by (auto simp: py_index_def split: if_splits)

lemma make_rule_errors:
  assumes "set dp \<subseteq> {''left'', ''right''}" "dp \<noteq> []" "length dp \<le> length rp"
    and "make_rule fmt X t rp dp = Inl e"
  shows "e = IndexError"
proof (cases "py_take (feature t) rp")
  case (Inl e') then show ?thesis using assms(4) py_take_err[OF Inl] by (simp add: make_rule_def)
next
  case fs: (Inr fs)
  show ?thesis
  proof (cases "py_take X fs")
    case (Inl e') then show ?thesis
      using assms(4) fs py_take_err[OF Inl] by (simp add: make_rule_def)
  next
    case cols: (Inr cols)
    show ?thesis
    proof (cases "py_take (threshold t) rp")
      case (Inl e') then show ?thesis
        using assms(4) fs cols py_take_err[OF Inl] by (simp add: make_rule_def)
    next
      case thrs: (Inr thrs)
      have lc: "length dp \<le> length cols"
        using py_take_length[OF fs] py_take_length[OF cols] assms(3) by simp
      have lt: "length dp \<le> length thrs" using py_take_length[OF thrs] assms(3) by simp
      show ?thesis
        using assms(4) fs cols thrs
          create_rule_filter_ok[OF assms(1) lc lt assms(2)]
          create_rule_filter_name_ok[OF assms(1) lc lt assms(2), of fmt]
        by (simp add: make_rule_def)
    qed
  qed
qed

lemma add_rule_errors:
  assumes "set dp \<subseteq> {''left'', ''right''}" "dp \<noteq> []" "length dp \<le> length rp"
    and "add_rule fmt X t rp dp rd = Inl e"
  shows "e = IndexError"
proof -
  have "make_rule fmt X t rp dp = Inl e"
    using assms(4) by (auto simp: add_rule_def split: sum.splits prod.splits)
  then show ?thesis by (rule make_rule_errors[OF assms(1-3)])
qed

lemma traverse_val_errors:
  "set dp \<subseteq> {''left'', ''right''} \<Longrightarrow> length dp = length rp \<Longrightarrow>
   traverse_val d fmt X t p rp dp rd = Inl e \<Longrightarrow> e = IndexError \<or> e = RecursionError"
proof (induction d arbitrary: p rp dp rd e)
  case 0
  then show ?case by simp
next
  case (Suc d)
  show ?case
  proof (cases "py_index (children_left t) p")
    case (Inl e') then show ?thesis using Suc.prems(3) py_index_err[OF Inl] by simp
  next
    case l: (Inr l)
    show ?thesis
    proof (cases "py_index (children_right t) p")
      case (Inl e') then show ?thesis using Suc.prems(3) l py_index_err[OF Inl] by simp
    next
      case r: (Inr r)
      define R1 where "R1 = (if 2 < length (rp @ [p])
            then add_rule fmt X t (rp @ [p]) dp rd else Inr rd)"
      define Lv where "Lv rd1 = (if l \<ge> 0
            then traverse_val d fmt X t l (rp @ [p]) (dp @ [''left'']) rd1
            else Inr rd1)" for rd1
      define Rv where "Rv rd2 = (if r \<ge> 0
            then traverse_val d fmt X t r (rp @ [p]) (dp @ [''right'']) rd2
            else Inr rd2)" for rd2
      have unfoldV: "traverse_val (Suc d) fmt X t p rp dp rd =
           (case R1 of Inl e \<Rightarrow> Inl e | Inr rd1 \<Rightarrow>
            (case Lv rd1 of Inl e \<Rightarrow> Inl e | Inr rd2 \<Rightarrow> Rv rd2))"
        unfolding R1_def Lv_def Rv_def
        by (simp only: traverse_val.simps l r sum.case)
      have dl: "set (dp @ [''left'']) \<subseteq> {''left'', ''right''}"
        and dr: "set (dp @ [''right'']) \<subseteq> {''left'', ''right''}"
        using Suc.prems(1) by simp_all
      have ll: "length (dp @ [''left'']) = length (rp @ [p])"
        and lr: "length (dp @ [''right'']) = length (rp @ [p])"
        using Suc.prems(2) by simp_all
      have e1: "e' = IndexError" if "R1 = Inl e'" for e'
      proof (cases "2 < length (rp @ [p])")
        case False then show ?thesis using that by (simp add: R1_def)
      next
        case True
        then have ar: "add_rule fmt X t (rp @ [p]) dp rd = Inl e'"
          using that by (simp add: R1_def)
        have ne: "dp \<noteq> []" using True Suc.prems(2) by auto
        have le: "length dp \<le> length (rp @ [p])" using Suc.prems(2) by simp
        show ?thesis by (rule add_rule_errors[OF Suc.prems(1) ne le ar])
      qed
      have e2: "e' = IndexError \<or> e' = RecursionError" if "Lv rd1 = Inl e'" for e' rd1
      proof (cases "0 \<le> l")
        case False then show ?thesis using that by (simp add: Lv_def)
      next
        case True
        then have "traverse_val d fmt X t l (rp @ [p]) (dp @ [''left'']) rd1 = Inl e'"
          using that by (simp add: Lv_def)
        then show ?thesis by (rule Suc.IH[OF dl ll])
      qed
      have e3: "e' = IndexError \<or> e' = RecursionError" if "Rv rd2 = Inl e'" for e' rd2
      proof (cases "0 \<le> r")
        case False then show ?thesis using that by (simp add: Rv_def)
      next
        case True
        then have "traverse_val d fmt X t r (rp @ [p]) (dp @ [''right'']) rd2 = Inl e'"
          using that by (simp add: Rv_def)
        then show ?thesis by (rule Suc.IH[OF dr lr])
      qed
      show ?thesis
      proof (cases R1)
        case (Inl e') then show ?thesis using Suc.prems(3) e1[OF Inl] unfolding unfoldV by simp
      next
        case r1: (Inr rd1)
        show ?thesis
        proof (cases "Lv rd1")
          case (Inl e') then show ?thesis
            using Suc.prems(3) r1 e2[OF Inl] unfolding unfoldV by simp
        next
          case (Inr rd2)
          then have "Rv rd2 = Inl e" using Suc.prems(3) r1 unfolding unfoldV by simp
          then show ?thesis by (rule e3)
        qed
      qed
    qed
  qed
qed

text \<open>
  C9. The directions handed down by \<open>_traverse\<close> are only ever \<open>left\<close> and \<open>right\<close>, and a
  rule is built only with at least two of them, so the branches without a result of
  \<open>_create_single_filter\<close> (a \<open>None\<close> operand of \<open>&\<close>, a \<open>TypeError\<close>) and of
  \<open>_create_single_filter_name\<close> (an unassigned operator, an \<open>UnboundLocalError\<close>) are never
  reached from the top-level call: it never ends with either error.
\<close>

theorem fall_through_unreachable:
  "create_tree_rule_filters d fmt X t \<noteq> Inl TypeError \<and>
   create_tree_rule_filters d fmt X t \<noteq> Inl UnboundLocalError \<and>
   traverse d fmt X t 0 0 [] ([[]], []) \<noteq> Inl TypeError \<and>
   traverse d fmt X t 0 0 [] ([[]], []) \<noteq> Inl UnboundLocalError"
proof -
  have v: "traverse_val d fmt X t 0 [] [] [] \<noteq> Inl TypeError \<and>
           traverse_val d fmt X t 0 [] [] [] \<noteq> Inl UnboundLocalError"
    using traverse_val_errors[of "[]" "[]" d fmt X t 0 "[]"] by auto
  have s: "store_agrees [[]] 0 [0] (traverse d fmt X t 0 0 [] ([[]], []))
     (traverse_val d fmt X t 0 ([[]] ! 0) [] [])"
    by (rule traverse_store) simp
  have "traverse d fmt X t 0 0 [] ([[]], []) \<noteq> Inl TypeError \<and>
        traverse d fmt X t 0 0 [] ([[]], []) \<noteq> Inl UnboundLocalError"
    using s v by (auto simp: store_agrees_def)
  then show ?thesis using v by (simp add: create_tree_rule_filters_val)
qed

theorem fall_through_unreachable_witness:
  "create_tree_rule_filters 10 fmt0 [] tree5 = Inl IndexError \<and>
   create_tree_rule_filters 10 fmt0 [] tree5 \<noteq> Inl TypeError \<and>
   create_tree_rule_filters 10 fmt0 [] tree5 \<noteq> Inl UnboundLocalError"
  using fall_through_unreachable[of 10 fmt0 "[]" tree5] no_columns_error by simp

section \<open>Malformed references\<close>

lemma py_take_mem:
  "py_take xs is = Inr vs \<Longrightarrow> i \<in> set is \<Longrightarrow> \<exists>v. py_index xs i = Inr v \<and> v \<in> set vs"
  by (induction "is" arbitrary: vs) (auto split: sum.splits)

lemma py_take_bad:
  "i \<in> set is \<Longrightarrow> py_index xs i = Inl e \<Longrightarrow> py_take xs is = Inl IndexError"
proof (induction "is")
  case Nil
  then show ?case by simp
next
  case (Cons j js)
  show ?case
  proof (cases "py_take xs (j # js)")
    case (Inl e') then show ?thesis using py_take_err[OF Inl] by simp
  next
    case (Inr vs)
    from py_take_mem[OF Inr Cons.prems(1)] Cons.prems(2) show ?thesis by simp
  qed
qed

lemma py_index_out_of_range:
  "int (length xs) \<le> f \<or> f < - int (length xs) \<Longrightarrow> py_index xs f = Inl IndexError"
  by (auto simp: py_index_def)

lemma make_rule_bad_feature:
  assumes "i \<in> set rp" "py_index (feature t) i = Inr f"
    and "int (length X) \<le> f \<or> f < - int (length X)"
  shows "make_rule fmt X t rp dp = Inl IndexError"
proof (cases "py_take (feature t) rp")
  case (Inl e) then show ?thesis using py_take_err[OF Inl] by (simp add: make_rule_def)
next
  case (Inr fs)
  from py_take_mem[OF Inr assms(1)] assms(2) have "f \<in> set fs" by simp
  then have "py_take X fs = Inl IndexError"
    using py_index_out_of_range[OF assms(3)] by (rule py_take_bad)
  then show ?thesis using Inr by (simp add: make_rule_def)
qed

lemma py_and_None: "py_and acc PyNone = Inl TypeError"
  by (cases acc) simp_all

lemma rule_filter_loop_bad:
  "i \<in> set is \<Longrightarrow> ds ! i \<noteq> ''left'' \<Longrightarrow> ds ! i \<noteq> ''right'' \<Longrightarrow>
   \<exists>e. rule_filter_loop cols thrs ds is acc = Inl e"
proof (induction "is" arbitrary: acc)
  case Nil
  then show ?case by simp
next
  case (Cons j js)
  show ?case
  proof (cases "py_index cols (int j)")
    case (Inl e) then show ?thesis by simp
  next
    case c: (Inr col)
    show ?thesis
    proof (cases "py_index thrs (int j)")
      case (Inl e) then show ?thesis using c by simp
    next
      case th: (Inr thr)
      show ?thesis
      proof (cases "py_and acc (create_single_filter (snd col) thr (ds ! j))")
        case (Inl e) then show ?thesis using c th by simp
      next
        case (Inr acc')
        have "j \<noteq> i"
        proof
          assume "j = i"
          then have "create_single_filter (snd col) thr (ds ! j) = PyNone"
            using Cons.prems(2,3) by (simp add: create_single_filter_def)
          then show False using Inr by (simp add: py_and_None)
        qed
        then have "i \<in> set js" using Cons.prems(1) by simp
        from Cons.IH[OF this Cons.prems(2,3), of acc'] show ?thesis using c th Inr by simp
      qed
    qed
  qed
qed

lemma filter_names_loop_bad:
  "i \<in> set is \<Longrightarrow> ds ! i \<noteq> ''left'' \<Longrightarrow> ds ! i \<noteq> ''right'' \<Longrightarrow>
   \<exists>e. filter_names_loop fmt cols thrs ds is = Inl e"
proof (induction "is")
  case Nil
  then show ?case by simp
next
  case (Cons j js)
  show ?case
  proof (cases "create_single_filter_name fmt cols thrs ds j")
    case (Inl e) then show ?thesis by simp
  next
    case (Inr nm)
    have "j \<noteq> i"
    proof
      assume "j = i"
      then show False using Inr Cons.prems(2,3)
        by (auto simp: create_single_filter_name_def split: sum.splits)
    qed
    then have "i \<in> set js" using Cons.prems(1) by simp
    from Cons.IH[OF this Cons.prems(2,3)] show ?thesis using Inr by auto
  qed
qed

lemma bad_direction_position:
  assumes "d \<in> set dp" "d \<noteq> ''left''" "d \<noteq> ''right''"
  obtains i where "i \<in> set [0..<length dp]" "dp ! i \<noteq> ''left''" "dp ! i \<noteq> ''right''"
proof -
  from assms(1) obtain i where "i < length dp" "dp ! i = d" by (auto simp: in_set_conv_nth)
  then show ?thesis using assms(2,3) that[of i] by simp
qed

lemma create_rule_filter_bad:
  assumes "d \<in> set dp" "d \<noteq> ''left''" "d \<noteq> ''right''"
  shows "\<exists>e. create_rule_filter cols thrs dp = Inl e"
proof -
  from assms obtain i where "i \<in> set [0..<length dp]" "dp ! i \<noteq> ''left''" "dp ! i \<noteq> ''right''"
    by (rule bad_direction_position)
  then show ?thesis unfolding create_rule_filter_def by (rule rule_filter_loop_bad)
qed

lemma create_rule_filter_name_bad:
  assumes "d \<in> set dp" "d \<noteq> ''left''" "d \<noteq> ''right''"
  shows "\<exists>e. create_rule_filter_name fmt cols thrs dp = Inl e"
proof -
  from assms obtain i where "i \<in> set [0..<length dp]" "dp ! i \<noteq> ''left''" "dp ! i \<noteq> ''right''"
    by (rule bad_direction_position)
  then have "\<exists>e. filter_names_loop fmt cols thrs dp [0..<length dp] = Inl e"
    by (rule filter_names_loop_bad)
  then show ?thesis by (auto simp: create_rule_filter_name_def)
qed

lemma make_rule_bad_direction:
  fixes X :: "('a::ord) dataframe"
  assumes "d \<in> set dp" "d \<noteq> ''left''" "d \<noteq> ''right''"
  shows "\<exists>e. make_rule fmt X t rp dp = Inl e"
proof (cases "make_rule fmt X t rp dp")
  case (Inl e) then show ?thesis by simp
next
  case (Inr nv)
  then obtain cols :: "'a dataframe" and thrs v
    where "create_rule_filter cols thrs dp = Inr v"
    by (auto simp: make_rule_def split: sum.splits)
  then show ?thesis using create_rule_filter_bad[OF assms, of cols thrs] by simp
qed

lemma add_rule_fails: "make_rule fmt X t rp dp = Inl e \<Longrightarrow> add_rule fmt X t rp dp rd = Inl e"
  by (simp add: add_rule_def)

lemma traverse_add_rule_fails:
  assumes "a < length store" "2 < length (store ! a @ [p])"
    and "add_rule fmt X t (store ! a @ [p]) dp rd = Inl e"
  shows "\<exists>e'. traverse (Suc d) fmt X t p a dp (store, rd) = Inl e'"
proof (cases "py_index (children_left t) p")
  case (Inl e') then show ?thesis by simp
next
  case l: (Inr l)
  show ?thesis
  proof (cases "py_index (children_right t) p")
    case (Inl e') then show ?thesis using l by simp
  next
    case r: (Inr r)
    have s1: "store[a := store ! a @ [p]] ! a = store ! a @ [p]" using assms(1) by simp
    have "traverse (Suc d) fmt X t p a dp (store, rd) = Inl e"
      using assms(2,3)
      by (simp only: traverse.simps l r sum.case Let_def s1 if_True)
    then show ?thesis by blast
  qed
qed

text \<open>
  C8, as stated, fails for a negative feature index: the column selection counts it from
  the end. With \<open>-1\<close> at the root and two columns, \<open>-1\<close> is not a column position in
  \<open>[0, 2)\<close>, no error is raised, and the rules are built on the last column.
\<close>

theorem negative_feature_counterexample:
  "py_index (feature tree5_neg) 0 = Inr (- 1) \<and>
   \<not> (0 \<le> (- 1 :: int) \<and> (- 1 :: int) < int (length data2)) \<and>
   create_tree_rule_filters 10 fmt0 data2 tree5_neg =
     Inr [(''b > 5.0 & b <= 10.0'', Series [False, False, False]),
          (''b > 5.0 & b > 10.0'', Series [True, False, True])]"
  by code_simp

text \<open>
  C8, amended. When a rule is to be stored for a path holding a node whose feature index
  \<open>f\<close> is outside what the column selection accepts (\<open>f \<ge> ncols\<close> or \<open>f < -ncols\<close>), or
  with a direction that is neither \<open>left\<close> nor \<open>right\<close>, building the rule raises, nothing
  is stored, and the activation of \<open>_traverse\<close> ends with an error.
\<close>

theorem malformed_reference_raises:
  assumes "a < length store" and "2 < length (store ! a @ [p])"
    and "(\<exists>i\<in>set (store ! a @ [p]). \<exists>f. py_index (feature t) i = Inr f \<and>
            (int (length X) \<le> f \<or> f < - int (length X))) \<or>
         (\<exists>d\<in>set dp. d \<noteq> ''left'' \<and> d \<noteq> ''right'')"
  shows "(\<exists>e. make_rule fmt X t (store ! a @ [p]) dp = Inl e \<and>
              add_rule fmt X t (store ! a @ [p]) dp rd = Inl e) \<and>
         (\<exists>e. traverse (Suc d) fmt X t p a dp (store, rd) = Inl e)"
proof -
  have "\<exists>e. make_rule fmt X t (store ! a @ [p]) dp = Inl e"
    using assms(3) make_rule_bad_feature make_rule_bad_direction by blast
  then obtain e where mk: "make_rule fmt X t (store ! a @ [p]) dp = Inl e" by blast
  have ar: "add_rule fmt X t (store ! a @ [p]) dp rd = Inl e" by (rule add_rule_fails[OF mk])
  from traverse_add_rule_fails[OF assms(1,2) ar] mk ar show ?thesis by blast
qed

theorem malformed_reference_raises_witness:
  "(0::nat) < length [[0, 2 :: int]] \<and> 2 < length ([[0, 2 :: int]] ! 0 @ [3]) \<and>
   py_index (feature tree5) 2 = Inr 1 \<and> int (length data1) \<le> 1 \<and>
   (\<exists>e. make_rule fmt0 data1 tree5 ([[0, 2]] ! 0 @ [3]) [''right'', ''left''] = Inl e \<and>
        add_rule fmt0 data1 tree5 ([[0, 2]] ! 0 @ [3]) [''right'', ''left''] [] = Inl e) \<and>
   (\<exists>e. traverse (Suc 0) fmt0 data1 tree5 3 0 [''right'', ''left''] ([[0, 2]], []) = Inl e) \<and>
   (\<exists>e. make_rule fmt0 data2 tree5 ([[0, 2]] ! 0 @ [3]) [''right'', ''up''] = Inl e \<and>
        add_rule fmt0 data2 tree5 ([[0, 2]] ! 0 @ [3]) [''right'', ''up''] [] = Inl e) \<and>
   (\<exists>e. traverse (Suc 0) fmt0 data2 tree5 3 0 [''right'', ''up''] ([[0, 2]], []) = Inl e)"
proof -
  have h1: "(0::nat) < length [[0, 2 :: int]]" by simp
  have h2: "2 < length ([[0, 2 :: int]] ! 0 @ [3])" by simp
  have f: "py_index (feature tree5) 2 = Inr 1" by code_simp
  have n: "int (length data1) \<le> 1" by (simp add: data1_def)
  have h3: "(\<exists>i\<in>set ([[0, 2]] ! 0 @ [3]). \<exists>f. py_index (feature tree5) i = Inr f \<and>
            (int (length data1) \<le> f \<or> f < - int (length data1))) \<or>
         (\<exists>d\<in>set [''right'', ''left'']. d \<noteq> ''left'' \<and> d \<noteq> ''right'')"
    using f n by auto
  have h4: "(\<exists>i\<in>set ([[0, 2]] ! 0 @ [3]). \<exists>f. py_index (feature tree5) i = Inr f \<and>
            (int (length data2) \<le> f \<or> f < - int (length data2))) \<or>
         (\<exists>d\<in>set [''right'', ''up'']. d \<noteq> ''left'' \<and> d \<noteq> ''right'')"
    by simp
  from malformed_reference_raises[OF h1 h2 h3, of fmt0 "[]" 0]
       malformed_reference_raises[OF h1 h2 h4, of fmt0 "[]" 0] h1 h2 f n
  show ?thesis by blast
qed

section \<open>The split of the last node\<close>

lemma py_take_append:
  "py_take xs (ns @ [m]) =
     (case py_take xs ns of
        Inl e \<Rightarrow> Inl e
      | Inr vs \<Rightarrow> (case py_index xs m of Inl e \<Rightarrow> Inl e | Inr v \<Rightarrow> Inr (vs @ [v])))"
  by (induction ns) (auto split: sum.splits)

lemma py_index_update_other:
  "0 \<le> i \<Longrightarrow> 0 \<le> m \<Longrightarrow> i \<noteq> m \<Longrightarrow> py_index (xs[nat m := v]) i = py_index xs i"
  by (auto simp: py_index_def nth_list_update)

lemma py_take_update_other:
  "\<forall>n\<in>set ns. 0 \<le> n \<and> n \<noteq> m \<Longrightarrow> 0 \<le> m \<Longrightarrow>
   py_take (xs[nat m := v]) ns = py_take xs ns"
  by (induction ns) (auto simp: py_index_update_other split: sum.splits)

lemma py_index_update_same:
  "0 \<le> m \<Longrightarrow> py_index (xs[nat m := v]) m =
     (case py_index xs m of Inl e \<Rightarrow> Inl e | Inr w \<Rightarrow> Inr v)"
  by (auto simp: py_index_def)

lemma py_index_append_lt: "i < length cs \<Longrightarrow> py_index (cs @ [c]) (int i) = Inr (cs ! i)"
  by (simp add: py_index_nat nth_append)

lemma rule_filter_loop_last:
  "\<forall>i\<in>set is. i < length cs \<and> i < length ts \<Longrightarrow>
   rule_filter_loop (cs @ [c]) (ts @ [th]) ds is acc =
   rule_filter_loop (cs @ [c']) (ts @ [th']) ds is acc"
  by (induction "is" arbitrary: acc) (auto simp: py_index_append_lt split: sum.splits)

lemma filter_names_loop_last:
  "\<forall>i\<in>set is. i < length cs \<and> i < length ts \<Longrightarrow>
   filter_names_loop fmt (cs @ [c]) (ts @ [th]) ds is =
   filter_names_loop fmt (cs @ [c']) (ts @ [th']) ds is"
  by (induction "is")
     (auto simp: create_single_filter_name_def py_index_append_lt split: sum.splits)

lemma rule_parts_last:
  assumes "length ds \<le> length cs" "length ds \<le> length ts"
  shows "create_rule_filter (cs @ [c]) (ts @ [th]) ds = create_rule_filter (cs @ [c']) (ts @ [th']) ds"
    and "create_rule_filter_name fmt (cs @ [c]) (ts @ [th]) ds
           = create_rule_filter_name fmt (cs @ [c']) (ts @ [th']) ds"
proof -
  have r: "\<forall>i\<in>set [0..<length ds]. i < length cs \<and> i < length ts" using assms by auto
  show "create_rule_filter (cs @ [c]) (ts @ [th]) ds = create_rule_filter (cs @ [c']) (ts @ [th']) ds"
    unfolding create_rule_filter_def by (rule rule_filter_loop_last[OF r])
  show "create_rule_filter_name fmt (cs @ [c]) (ts @ [th]) ds
           = create_rule_filter_name fmt (cs @ [c']) (ts @ [th']) ds"
    unfolding create_rule_filter_name_def by (simp only: filter_names_loop_last[OF r, of fmt c th ds c' th'])
qed

lemma make_rule_last_node:
  fixes X :: "('a::ord) dataframe" and t :: "'a tree"
  assumes m0: "0 \<le> m" and ns: "\<forall>n\<in>set ns. 0 \<le> n \<and> n \<noteq> m"
    and len: "length ds \<le> length ns"
    and valid: "\<forall>f. py_index (feature t) m = Inr f \<longrightarrow> (\<exists>c. py_index X f = Inr c)"
    and valid': "\<exists>c. py_index X f' = Inr c"
  shows "make_rule fmt X (t\<lparr>feature := (feature t)[nat m := f'],
                            threshold := (threshold t)[nat m := th']\<rparr>) (ns @ [m]) ds
         = make_rule fmt X t (ns @ [m]) ds"
proof -
  let ?t' = "t\<lparr>feature := (feature t)[nat m := f'], threshold := (threshold t)[nat m := th']\<rparr>"
  have F: "py_take ((feature t)[nat m := f']) (ns @ [m]) =
     (case py_take (feature t) ns of Inl e \<Rightarrow> Inl e
      | Inr fs \<Rightarrow> (case py_index (feature t) m of Inl e \<Rightarrow> Inl e | Inr w \<Rightarrow> Inr (fs @ [f'])))"
  proof -
    have a: "py_take ((feature t)[nat m := f']) ns = py_take (feature t) ns"
      by (rule py_take_update_other[OF ns m0])
    have b: "py_index ((feature t)[nat m := f']) m =
       (case py_index (feature t) m of Inl e \<Rightarrow> Inl e | Inr w \<Rightarrow> Inr f')"
      by (rule py_index_update_same[OF m0])
    show ?thesis by (simp add: py_take_append a b split: sum.splits)
  qed
  have T: "py_take ((threshold t)[nat m := th']) (ns @ [m]) =
     (case py_take (threshold t) ns of Inl e \<Rightarrow> Inl e
      | Inr ts \<Rightarrow> (case py_index (threshold t) m of Inl e \<Rightarrow> Inl e | Inr w \<Rightarrow> Inr (ts @ [th'])))"
  proof -
    have a: "py_take ((threshold t)[nat m := th']) ns = py_take (threshold t) ns"
      by (rule py_take_update_other[OF ns m0])
    have b: "py_index ((threshold t)[nat m := th']) m =
       (case py_index (threshold t) m of Inl e \<Rightarrow> Inl e | Inr w \<Rightarrow> Inr th')"
      by (rule py_index_update_same[OF m0])
    show ?thesis by (simp add: py_take_append a b split: sum.splits)
  qed
  have F0: "py_take (feature t) (ns @ [m]) =
     (case py_take (feature t) ns of Inl e \<Rightarrow> Inl e
      | Inr fs \<Rightarrow> (case py_index (feature t) m of Inl e \<Rightarrow> Inl e | Inr w \<Rightarrow> Inr (fs @ [w])))"
    by (rule py_take_append)
  have T0: "py_take (threshold t) (ns @ [m]) =
     (case py_take (threshold t) ns of Inl e \<Rightarrow> Inl e
      | Inr ts \<Rightarrow> (case py_index (threshold t) m of Inl e \<Rightarrow> Inl e | Inr w \<Rightarrow> Inr (ts @ [w])))"
    by (rule py_take_append)
  show ?thesis
  proof (cases "py_take (feature t) ns")
    case (Inl e) then show ?thesis by (simp add: make_rule_def F F0)
  next
    case fs: (Inr fs)
    show ?thesis
    proof (cases "py_index (feature t) m")
      case (Inl e) then show ?thesis using fs by (simp add: make_rule_def F F0)
    next
      case f: (Inr f)
      from valid f obtain c where c: "py_index X f = Inr c" by blast
      from valid' obtain c' where c': "py_index X f' = Inr c'" by blast
      have F1: "py_take (feature t) (ns @ [m]) = Inr (fs @ [f])"
        and F2: "py_take (feature ?t') (ns @ [m]) = Inr (fs @ [f'])"
        using fs f by (simp_all add: F F0)
      show ?thesis
      proof (cases "py_take X fs")
        case (Inl e)
        have "py_take X (fs @ [f]) = Inl e" "py_take X (fs @ [f']) = Inl e"
          using Inl by (simp_all add: py_take_append)
        then show ?thesis unfolding make_rule_def by (simp only: F1 F2 sum.case)
      next
        case cs: (Inr cs)
        have X1: "py_take X (fs @ [f]) = Inr (cs @ [c])"
          and X2: "py_take X (fs @ [f']) = Inr (cs @ [c'])"
          using cs c c' by (simp_all add: py_take_append)
        show ?thesis
        proof (cases "py_take (threshold t) ns")
          case (Inl e)
          have "py_take (threshold t) (ns @ [m]) = Inl e"
            "py_take (threshold ?t') (ns @ [m]) = Inl e"
            using Inl by (simp_all add: T T0)
          then show ?thesis unfolding make_rule_def by (simp only: F1 F2 X1 X2 sum.case)
        next
          case ts: (Inr ts)
          show ?thesis
          proof (cases "py_index (threshold t) m")
            case (Inl e)
            have "py_take (threshold t) (ns @ [m]) = Inl e"
              "py_take (threshold ?t') (ns @ [m]) = Inl e"
              using Inl ts by (simp_all add: T T0)
            then show ?thesis unfolding make_rule_def by (simp only: F1 F2 X1 X2 sum.case)
          next
            case th: (Inr th)
            have T1: "py_take (threshold t) (ns @ [m]) = Inr (ts @ [th])"
              and T2: "py_take (threshold ?t') (ns @ [m]) = Inr (ts @ [th'])"
              using ts th by (simp_all add: T T0)
            have lc: "length ds \<le> length cs"
              using py_take_length[OF fs] py_take_length[OF cs] len by simp
            have lt: "length ds \<le> length ts" using py_take_length[OF ts] len by simp
            show ?thesis
              unfolding make_rule_def
              by (simp only: F1 F2 X1 X2 T1 T2 sum.case
                    rule_parts_last(1)[OF lc lt, where c = c and th = th and c' = c' and th' = th']
                    rule_parts_last(2)[OF lc lt, where c = c and th = th and c' = c' and th' = th'
                      and fmt = fmt])
          qed
        qed
      qed
    qed
  qed
qed

text \<open>
  C10. The rule of a path does not depend on the split data of its last node \<open>m\<close>: for a
  path of non-negative node indices in which \<open>m\<close> does not occur among the ancestors, with
  no more directions than ancestors, writing another feature index and threshold at \<open>m\<close>
  (both feature indices accepted by the column selection) leaves the name and the vector,
  and so the stored entry, the same.
\<close>

theorem last_node_split_unused:
  fixes X :: "('a::ord) dataframe" and t :: "'a tree"
  assumes "0 \<le> m" and "\<forall>n\<in>set ns. 0 \<le> n \<and> n \<noteq> m"
    and "length ds \<le> length ns"
    and "\<forall>f. py_index (feature t) m = Inr f \<longrightarrow> (\<exists>c. py_index X f = Inr c)"
    and "\<exists>c. py_index X f' = Inr c"
  shows "make_rule fmt X (t\<lparr>feature := (feature t)[nat m := f'],
                            threshold := (threshold t)[nat m := th']\<rparr>) (ns @ [m]) ds
           = make_rule fmt X t (ns @ [m]) ds \<and>
         add_rule fmt X (t\<lparr>feature := (feature t)[nat m := f'],
                            threshold := (threshold t)[nat m := th']\<rparr>) (ns @ [m]) ds rd
           = add_rule fmt X t (ns @ [m]) ds rd"
  using make_rule_last_node[OF assms, of fmt th'] by (simp add: add_rule_def)

theorem last_node_split_unused_witness:
  "py_index (feature tree5) 3 = Inr (- 2) \<and> py_index data2 (- 2) = Inr (''a'', [1, 7, 9]) \<and>
   py_index data2 1 = Inr (''b'', [20, 3, 11]) \<and>
   make_rule fmt0 data2 tree5 ([0, 2] @ [3]) [''right'', ''left'']
     = Inr (''a > 5.0 & b <= 10.0'', Series [False, True, False]) \<and>
   make_rule fmt0 data2 (tree5\<lparr>feature := (feature tree5)[nat 3 := 1],
                               threshold := (threshold tree5)[nat 3 := 99]\<rparr>)
       ([0, 2] @ [3]) [''right'', ''left'']
     = Inr (''a > 5.0 & b <= 10.0'', Series [False, True, False])"
proof -
  have h1: "(0::int) \<le> 3" by simp
  have h2: "\<forall>n\<in>set [0, 2 :: int]. 0 \<le> n \<and> n \<noteq> 3" by simp
  have h3: "length [''right'', ''left''] \<le> length [0, 2 :: int]" by simp
  have f: "py_index (feature tree5) 3 = Inr (- 2)" by code_simp
  have c: "py_index data2 (- 2) = Inr (''a'', [1, 7, 9])" by code_simp
  have c': "py_index data2 1 = Inr (''b'', [20, 3, 11])" by code_simp
  have h4: "\<forall>f. py_index (feature tree5) 3 = Inr f \<longrightarrow> (\<exists>c. py_index data2 f = Inr c)"
    using f c by simp
  have h5: "\<exists>c. py_index data2 1 = Inr c" using c' by simp
  have r: "make_rule fmt0 data2 tree5 ([0, 2] @ [3]) [''right'', ''left'']
     = Inr (''a > 5.0 & b <= 10.0'', Series [False, True, False])"
    using tree5_leaf_rule by simp
  from last_node_split_unused[OF h1 h2 h3 h4 h5, of fmt0 99 "[]"] r f c c'
  show ?thesis by simp
qed

end
